theory Spec2Isabelle
  imports Complex_Main "HOL-Library.Word"
begin

section \<open>Python values used by generate-og-images.py\<close>

text \<open>
  The script computes with Python integers (unbounded, modelled as \<open>int\<close>), with
  strings and with floats. A Python float is an IEEE 754 binary64 number; a finite one
  is modelled as the rational it denotes, and every float operation rounds its exact
  result to the nearest binary64 number, ties to even (\<open>fl\<close>). Infinities and NaN do
  not occur: the only operands are ratios in the unit interval, colour channels and
  text extents.
\<close>

datatype error =
    ValueError
  | ZeroDivisionError
  | OverflowError
  | MemoryError
  | IndexError
  | OSError
  | ImportError
  | DanglingReference

definition ebind :: "'e + 'a \<Rightarrow> ('a \<Rightarrow> 'e + 'b) \<Rightarrow> 'e + 'b" where
  "ebind m f = (case m of Inl e \<Rightarrow> Inl e | Inr v \<Rightarrow> f v)"

subsection \<open>Binary64 rounding\<close>

fun bitlen :: "nat \<Rightarrow> nat" where
  "bitlen n = (if n = 0 then 0 else Suc (bitlen (n div 2)))"

text \<open>The binary exponent of a positive rational: the \<open>e\<close> with \<open>2^e \<le> q < 2^(e+1)\<close>.\<close>

definition float_exponent :: "rat \<Rightarrow> int" where
  "float_exponent q =
     (if 1 \<le> q then int (bitlen (nat \<lfloor>q\<rfloor>)) - 1
      else - int (bitlen (nat (\<lceil>1 / q\<rceil> - 1))))"

definition round_half_even :: "rat \<Rightarrow> int" where
  "round_half_even q =
     (let f = \<lfloor>q\<rfloor>; d = q - of_int f
      in if d < 1 / 2 then f else if 1 / 2 < d then f + 1
         else if even f then f else f + 1)"

text \<open>
  The spacing of binary64 numbers around a positive rational: 52 fraction bits below the
  leading bit, and the fixed spacing \<open>2^-1074\<close> of the subnormal range below \<open>2^-1022\<close>.
\<close>

definition ulp :: "rat \<Rightarrow> rat" where
  "ulp q = 2 powi (max (float_exponent q) (- 1022) - 52)"

definition round_pos :: "rat \<Rightarrow> rat" where
  "round_pos q = of_int (round_half_even (q / ulp q)) * ulp q"

definition fl :: "rat \<Rightarrow> rat" where
  "fl q = (if q = 0 then 0 else if 0 < q then round_pos q else - round_pos (- q))"

subsection \<open>Arithmetic of the script\<close>

text \<open>\<open>a / b\<close> on two integers: the correctly rounded quotient.\<close>

definition truediv :: "int \<Rightarrow> int \<Rightarrow> error + rat" where
  "truediv a b =
     (if b = 0 then Inl ZeroDivisionError
      else let r = fl (of_int a / of_int b)
           in if 2 ^ 1024 \<le> \<bar>r\<bar> then Inl OverflowError else Inr r)"

text \<open>The conversion of an integer operand in a mixed integer/float operation.\<close>

definition float_of_int :: "int \<Rightarrow> error + rat" where
  "float_of_int n =
     (let r = fl (of_int n) in if 2 ^ 1024 \<le> \<bar>r\<bar> then Inl OverflowError else Inr r)"

definition float_mul :: "rat \<Rightarrow> rat \<Rightarrow> rat" where
  "float_mul a b = fl (a * b)"

definition float_add :: "rat \<Rightarrow> rat \<Rightarrow> rat" where
  "float_add a b = fl (a + b)"

text \<open>\<open>int(x)\<close> on a float truncates toward zero.\<close>

definition py_int :: "rat \<Rightarrow> int" where
  "py_int x = (if 0 \<le> x then \<lfloor>x\<rfloor> else \<lceil>x\<rceil>)"

text \<open>\<open>range(n)\<close> and a \<open>for\<close> loop whose body may raise.\<close>

definition py_range :: "int \<Rightarrow> int list" where
  "py_range n = [0..n - 1]"

fun for_loop :: "'i list \<Rightarrow> ('i \<Rightarrow> 's \<Rightarrow> error + 's) \<Rightarrow> 's \<Rightarrow> error + 's" where
  "for_loop [] body s = Inr s"
| "for_loop (i # is) body s =
     (case body i s of Inl e \<Rightarrow> Inl e | Inr s' \<Rightarrow> for_loop is body s')"

subsection \<open>Strings\<close>

text \<open>
  Strings are sequences of 8-bit characters; the colours and paths of the script are
  ASCII. \<open>slice i j s\<close> is \<open>s[i:j]\<close> for \<open>0 \<le> i \<le> j\<close>, and \<open>int_base16 s\<close> is
  \<open>int(s, 16)\<close>: surrounding ASCII whitespace is dropped, then come an optional sign,
  an optional \<open>0x\<close> prefix, and hexadecimal digits that single underscores may separate.
\<close>

definition slice :: "nat \<Rightarrow> nat \<Rightarrow> string \<Rightarrow> string" where
  "slice i j s = take (j - i) (drop i s)"

definition hex_digit :: "char \<Rightarrow> int option" where
  "hex_digit c =
     (let n = (of_char c :: nat)
      in if 48 \<le> n \<and> n \<le> 57 then Some (int n - 48)
         else if 97 \<le> n \<and> n \<le> 102 then Some (int n - 87)
         else if 65 \<le> n \<and> n \<le> 70 then Some (int n - 55)
         else None)"

definition is_space :: "char \<Rightarrow> bool" where
  "is_space c = (let n = (of_char c :: nat) in (9 \<le> n \<and> n \<le> 13) \<or> n = 32)"

fun digits16 :: "int \<Rightarrow> string \<Rightarrow> int option" where
  "digits16 acc [] = Some acc"
| "digits16 acc (c # cs) =
     (if c = CHR ''_'' then
        (case cs of
           [] \<Rightarrow> None
         | d # ds \<Rightarrow>
             (case hex_digit d of None \<Rightarrow> None | Some v \<Rightarrow> digits16 (16 * acc + v) ds))
      else (case hex_digit c of None \<Rightarrow> None | Some v \<Rightarrow> digits16 (16 * acc + v) cs))"

definition strip_sign :: "string \<Rightarrow> bool \<times> string" where
  "strip_sign t =
     (case t of
        [] \<Rightarrow> (False, t)
      | c # cs \<Rightarrow>
          if c = CHR ''-'' then (True, cs)
          else if c = CHR ''+'' then (False, cs)
          else (False, t))"

definition strip_prefix16 :: "string \<Rightarrow> string" where
  "strip_prefix16 u =
     (case u of
        a # b # cs \<Rightarrow>
          if a = CHR ''0'' \<and> (b = CHR ''x'' \<or> b = CHR ''X'') then
            (case cs of
               [] \<Rightarrow> cs
             | c # cs' \<Rightarrow> if c = CHR ''_'' then cs' else cs)
          else u
      | _ \<Rightarrow> u)"

definition int_base16 :: "string \<Rightarrow> error + int" where
  "int_base16 s =
     (let t = rev (dropWhile is_space (rev (dropWhile is_space s)));
          (neg, u) = strip_sign t
      in case strip_prefix16 u of
           [] \<Rightarrow> Inl ValueError
         | d # ds \<Rightarrow>
             (case hex_digit d of
                None \<Rightarrow> Inl ValueError
              | Some x \<Rightarrow>
                  (case digits16 x ds of
                     None \<Rightarrow> Inl ValueError
                   | Some n \<Rightarrow> Inr (if neg then - n else n))))"

text \<open>\<open>os.path.join\<close> on two POSIX path components.\<close>

definition os_path_join :: "string \<Rightarrow> string \<Rightarrow> string" where
  "os_path_join a b =
     (if b \<noteq> [] \<and> hd b = CHR ''/'' then b
      else if a = [] \<or> last a = CHR ''/'' then a @ b
      else a @ ''/'' @ b)"

section \<open>The imaging library, as far as the script uses it\<close>

text \<open>
  An RGB image has a size, one 8-bit triple per pixel inside that size, and the drawing
  commands applied on top of the pixels (the rasterisation of outlines and glyphs is the
  library's and is not modelled). Images are objects: they live in a store, are referred
  to by address, and are modified in place.
\<close>

type_synonym rgb = "int \<times> int \<times> int"

datatype font = FreeTypeFont string int | DefaultFont

datatype draw_op =
    Ellipse "(int \<times> int) \<times> (int \<times> int)" string int
  | Rectangle "(int \<times> int) \<times> (int \<times> int)" string int
  | Text "rat \<times> int" string string font

record image =
  im_size :: "int \<times> int"
  im_pixels :: "int \<times> int \<Rightarrow> rgb option"
  im_drawn :: "draw_op list"

type_synonym heap = "image list"

text \<open>
  What lies outside the script: whether the library can be imported, whether a TrueType
  file loads at a size, what \<open>textbbox((0, 0), text, font)\<close> measures (machine integers),
  and whether a file can be written at a path. The default font measures and draws text
  like a loaded one.
\<close>

record env =
  pil_importable :: bool
  truetype_ok :: "string \<Rightarrow> int \<Rightarrow> bool"
  text_bbox :: "font \<Rightarrow> string \<Rightarrow> 32 word \<times> 32 word \<times> 32 word \<times> 32 word"
  save_ok :: "string \<Rightarrow> bool"

text \<open>
  \<open>ImageColor.getrgb\<close> on the notation the script uses, \<open>#rrggbb\<close>; the library's other
  colour notations are not modelled and are rejected here.
\<close>

definition getrgb :: "string \<Rightarrow> error + rgb" where
  "getrgb color =
     (case color of
        [h, r1, r0, g1, g0, b1, b0] \<Rightarrow>
          (case (hex_digit r1, hex_digit r0, hex_digit g1, hex_digit g0,
                 hex_digit b1, hex_digit b0) of
             (Some a, Some b, Some c, Some d, Some e, Some f) \<Rightarrow>
               if h = CHR ''#'' then Inr (16 * a + b, 16 * c + d, 16 * e + f)
               else Inl ValueError
           | _ \<Rightarrow> Inl ValueError)
      | _ \<Rightarrow> Inl ValueError)"

text \<open>
  \<open>Image.new('RGB', size, color)\<close>: a fresh object, every pixel of the given colour.
  The sizes go to the library's C code as machine integers: a width or height above
  \<open>INT_MAX\<close> raises \<open>OverflowError\<close>, and a width above \<open>INT_MAX / 4 - 1\<close>, whose row
  of four-byte pixels could not be addressed, raises \<open>MemoryError\<close>. Running out of
  memory below these bounds is not modelled.
\<close>

definition INT_MAX :: int where
  "INT_MAX = 2 ^ 31 - 1"

definition Image_new :: "int \<times> int \<Rightarrow> string \<Rightarrow> heap \<Rightarrow> error + (nat \<times> heap)" where
  "Image_new sz color h =
     (if fst sz < 0 \<or> snd sz < 0 then Inl ValueError
      else case getrgb color of
             Inl e \<Rightarrow> Inl e
           | Inr c \<Rightarrow>
               if INT_MAX < fst sz \<or> INT_MAX < snd sz then Inl OverflowError
               else if INT_MAX div 4 - 1 < fst sz then Inl MemoryError
               else
                 Inr (length h,
                      h @ [\<lparr>im_size = sz,
                            im_pixels = (\<lambda>(x, y).
                              if 0 \<le> x \<and> x < fst sz \<and> 0 \<le> y \<and> y < snd sz
                              then Some c else None),
                            im_drawn = []\<rparr>]))"

definition heap_update :: "nat \<Rightarrow> (image \<Rightarrow> error + image) \<Rightarrow> heap \<Rightarrow> error + heap" where
  "heap_update a f h =
     (if a < length h then
        (case f (h ! a) of Inl e \<Rightarrow> Inl e | Inr im \<Rightarrow> Inr (h[a := im]))
      else Inl DanglingReference)"

definition clip8 :: "int \<Rightarrow> int" where
  "clip8 v = (if v < 0 then 0 else if 255 < v then 255 else v)"

text \<open>
  \<open>pixels[x, y] = (r, g, b)\<close> on the pixel access object of an image: a negative
  coordinate counts from the far edge, a coordinate outside the image raises, and the
  channels are stored as bytes.
\<close>

definition pixels_setitem :: "nat \<Rightarrow> int \<times> int \<Rightarrow> rgb \<Rightarrow> heap \<Rightarrow> error + heap" where
  "pixels_setitem pixels xy v h =
     heap_update pixels
       (\<lambda>im.
          let (w, hh) = im_size im;
              x = (if fst xy < 0 then fst xy + w else fst xy);
              y = (if snd xy < 0 then snd xy + hh else snd xy)
          in if 0 \<le> x \<and> x < w \<and> 0 \<le> y \<and> y < hh then
               (case v of (r, g, b) \<Rightarrow>
                  Inr (im\<lparr>im_pixels := (im_pixels im)((x, y) \<mapsto> (clip8 r, clip8 g, clip8 b))\<rparr>))
             else Inl IndexError)
       h"

text \<open>A drawing call on the \<open>ImageDraw\<close> object of an image.\<close>

definition draw :: "nat \<Rightarrow> draw_op \<Rightarrow> heap \<Rightarrow> error + heap" where
  "draw img op h = heap_update img (\<lambda>im. Inr (im\<lparr>im_drawn := im_drawn im @ [op]\<rparr>)) h"

definition ImageFont_truetype :: "env \<Rightarrow> string \<Rightarrow> int \<Rightarrow> error + font" where
  "ImageFont_truetype E path sz =
     (if truetype_ok E path sz then Inr (FreeTypeFont path sz) else Inl OSError)"

definition textbbox :: "env \<Rightarrow> font \<Rightarrow> string \<Rightarrow> int \<times> int \<times> int \<times> int" where
  "textbbox E f s =
     (case text_bbox E f s of (l, t, r, b) \<Rightarrow> (sint l, sint t, sint r, sint b))"

section \<open>generate-og-images.py\<close>

definition DARK_BG :: string where "DARK_BG = ''#0f0f23''"
definition ACCENT_PURPLE :: string where "ACCENT_PURPLE = ''#8b5cf6''"
definition ACCENT_CYAN :: string where "ACCENT_CYAN = ''#06b6d4''"
definition WHITE :: string where "WHITE = ''#ffffff''"
definition LIGHT_GRAY :: string where "LIGHT_GRAY = ''#e5e7eb''"

definition WIDTH :: int where "WIDTH = 1200"
definition HEIGHT :: int where "HEIGHT = 630"

subsection \<open>create_gradient_background\<close>

text \<open>The expression \<open>int(c1 + (c2 - c1) * ratio)\<close> of lines 35 to 37.\<close>

definition interpolate :: "int \<Rightarrow> int \<Rightarrow> rat \<Rightarrow> error + int" where
  "interpolate c1 c2 ratio =
     ebind (float_of_int (c2 - c1)) (\<lambda>d.
     ebind (float_of_int c1) (\<lambda>a.
     Inr (py_int (float_add a (float_mul d ratio)))))"

text \<open>Line 31: \<open>ratio = (x + y) / (width + height)\<close>.\<close>

definition gradient_ratio :: "int \<Rightarrow> int \<Rightarrow> int \<Rightarrow> int \<Rightarrow> error + rat" where
  "gradient_ratio width height x y = truediv (x + y) (width + height)"

text \<open>The body of the inner loop, lines 31 to 39.\<close>

definition gradient_body ::
  "int \<Rightarrow> int \<Rightarrow> string \<Rightarrow> string \<Rightarrow> nat \<Rightarrow> int \<Rightarrow> int \<Rightarrow> heap \<Rightarrow> error + heap" where
  "gradient_body width height color1 color2 pixels x y h =
     ebind (gradient_ratio width height x y) (\<lambda>ratio.
     ebind (int_base16 (slice 1 3 color1)) (\<lambda>r1.
     ebind (int_base16 (slice 3 5 color1)) (\<lambda>g1.
     ebind (int_base16 (slice 5 7 color1)) (\<lambda>b1.
     ebind (int_base16 (slice 1 3 color2)) (\<lambda>r2.
     ebind (int_base16 (slice 3 5 color2)) (\<lambda>g2.
     ebind (int_base16 (slice 5 7 color2)) (\<lambda>b2.
     ebind (interpolate r1 r2 ratio) (\<lambda>r.
     ebind (interpolate g1 g2 ratio) (\<lambda>g.
     ebind (interpolate b1 b2 ratio) (\<lambda>b.
     pixels_setitem pixels (x, y) (r, g, b) h))))))))))"

definition create_gradient_background ::
  "int \<Rightarrow> int \<Rightarrow> string \<Rightarrow> string \<Rightarrow> heap \<Rightarrow> error + (nat \<times> heap)" where
  "create_gradient_background width height color1 color2 h =
     ebind (Image_new (width, height) color1 h) (\<lambda>(image, h1).
     ebind (for_loop (py_range width)
              (\<lambda>x. for_loop (py_range height)
                      (\<lambda>y. gradient_body width height color1 color2 image x y))
              h1) (\<lambda>h2.
     Inr (image, h2)))"

text \<open>
  What lines 31 and 35 to 37 compute when no exception occurs, as plain values: the
  quotient, the product and the sum are each rounded to binary64, and \<open>int\<close> truncates.
\<close>

definition binary64_ratio :: "int \<Rightarrow> int \<Rightarrow> int \<Rightarrow> int \<Rightarrow> rat" where
  "binary64_ratio W H x y = fl (of_int (x + y) / of_int (W + H))"

definition binary64_channel :: "int \<Rightarrow> int \<Rightarrow> rat \<Rightarrow> int" where
  "binary64_channel c1 c2 r = py_int (fl (of_int c1 + fl (of_int (c2 - c1) * r)))"

definition binary64_pixel :: "int \<Rightarrow> int \<Rightarrow> rgb \<Rightarrow> rgb \<Rightarrow> int \<times> int \<Rightarrow> rgb" where
  "binary64_pixel W H c1 c2 p =
     (case (c1, c2, p) of
        ((r1, g1, b1), (r2, g2, b2), (x, y)) \<Rightarrow>
          let r = binary64_ratio W H x y
          in (binary64_channel r1 r2 r, binary64_channel g1 g2 r, binary64_channel b1 b2 r))"

definition gradient_image :: "int \<Rightarrow> int \<Rightarrow> rgb \<Rightarrow> rgb \<Rightarrow> image" where
  "gradient_image W H c1 c2 =
     \<lparr>im_size = (W, H),
      im_pixels = (\<lambda>(x, y).
        if 0 \<le> x \<and> x < W \<and> 0 \<le> y \<and> y < H then Some (binary64_pixel W H c1 c2 (x, y))
        else None),
      im_drawn = []\<rparr>"


text \<open>
  Testable property 1 of the specification, in its words: the channel is
  \<open>round(c1 + (c2 - c1) * (x + y) / (W + H))\<close> clamped to the byte range.
\<close>

definition spec_rounded_channel :: "int \<Rightarrow> int \<Rightarrow> int \<Rightarrow> int \<Rightarrow> int \<Rightarrow> int \<Rightarrow> int" where
  "spec_rounded_channel c1 c2 W H x y =
     clip8 (round (of_int c1 + of_int (c2 - c1) * (of_int (x + y) / of_int (W + H) :: rat)))"

text \<open>The image object a call returned, and one of its pixels as \<open>getpixel\<close> reads it.\<close>

definition returned :: "'e + (nat \<times> heap) \<Rightarrow> image option" where
  "returned res =
     (case res of
        Inl e \<Rightarrow> None
      | Inr (a, h) \<Rightarrow> if a < length h then Some (h ! a) else None)"

definition pixel_at :: "'e + (nat \<times> heap) \<Rightarrow> int \<times> int \<Rightarrow> rgb option" where
  "pixel_at res p = (case returned res of None \<Rightarrow> None | Some im \<Rightarrow> im_pixels im p)"

text \<open>An image with the pixels of a set overwritten by a pixel function.\<close>

definition painted :: "(int \<times> int \<Rightarrow> rgb) \<Rightarrow> (int \<times> int) set \<Rightarrow> image \<Rightarrow> image" where
  "painted F S im = im\<lparr>im_pixels := (\<lambda>p. if p \<in> S then Some (F p) else im_pixels im p)\<rparr>"

subsection \<open>create_og_image and create_twitter_image\<close>

text \<open>
  The \<open>try\<close> block that loads three fonts: when any load raises, the bare \<open>except\<close>
  replaces all three by the default font.
\<close>

definition load_fonts ::
  "env \<Rightarrow> string \<times> int \<Rightarrow> string \<times> int \<Rightarrow> string \<times> int \<Rightarrow> font \<times> font \<times> font" where
  "load_fonts E a b c =
     (case ebind (ImageFont_truetype E (fst a) (snd a)) (\<lambda>title_font.
           ebind (ImageFont_truetype E (fst b) (snd b)) (\<lambda>subtitle_font.
           ebind (ImageFont_truetype E (fst c) (snd c)) (\<lambda>tagline_font.
           Inr (title_font, subtitle_font, tagline_font)))) of
        Inl e \<Rightarrow> (DefaultFont, DefaultFont, DefaultFont)
      | Inr fs \<Rightarrow> fs)"

text \<open>
  The four lines that centre and draw one string: measure it, halve the free width,
  draw at that offset.
\<close>

definition text_width :: "env \<Rightarrow> font \<Rightarrow> string \<Rightarrow> int" where
  "text_width E f s = (case textbbox E f s of (l, t, r, b) \<Rightarrow> r - l)"

definition draw_centered ::
  "env \<Rightarrow> nat \<Rightarrow> string \<Rightarrow> font \<Rightarrow> int \<Rightarrow> string \<Rightarrow> heap \<Rightarrow> error + heap" where
  "draw_centered E img s f y fill h =
     ebind (truediv (WIDTH - text_width E f s) 2) (\<lambda>x.
     draw img (Text (x, y) s fill f) h)"

definition dejavu_bold :: string where
  "dejavu_bold = ''/usr/share/fonts/truetype/dejavu/DejaVuSans-Bold.ttf''"

definition dejavu :: string where
  "dejavu = ''/usr/share/fonts/truetype/dejavu/DejaVuSans.ttf''"

definition create_og_image :: "env \<Rightarrow> heap \<Rightarrow> error + (nat \<times> heap)" where
  "create_og_image E h =
     ebind (create_gradient_background WIDTH HEIGHT DARK_BG ACCENT_CYAN h) (\<lambda>(img, h1).
     case load_fonts E (dejavu_bold, 90) (dejavu, 48) (dejavu, 36) of
       (title_font, subtitle_font, tagline_font) \<Rightarrow>
     let circle_radius = 120 in
     ebind (draw img
              (Ellipse ((WIDTH - circle_radius * 2 - 50, HEIGHT - circle_radius * 2 - 30),
                        (WIDTH - 50, HEIGHT - 30)) ACCENT_PURPLE 3) h1) (\<lambda>h2.
     ebind (draw_centered E img ''JustLayMe'' title_font 150 WHITE h2) (\<lambda>h3.
     ebind (draw_centered E img ''Unfiltered AI Conversations'' subtitle_font 280
              ACCENT_CYAN h3) (\<lambda>h4.
     ebind (draw_centered E img ''Chat Without Restrictions'' tagline_font 370
              LIGHT_GRAY h4) (\<lambda>h5.
     Inr (img, h5))))))"

definition create_twitter_image :: "env \<Rightarrow> heap \<Rightarrow> error + (nat \<times> heap)" where
  "create_twitter_image E h =
     ebind (create_gradient_background WIDTH HEIGHT DARK_BG ACCENT_PURPLE h) (\<lambda>(img, h1).
     case load_fonts E (dejavu_bold, 85) (dejavu, 42) (dejavu, 32) of
       (title_font, subtitle_font, tagline_font) \<Rightarrow>
     ebind (draw img (Rectangle ((50, 50), (100, 100)) ACCENT_PURPLE 3) h1) (\<lambda>h2.
     ebind (draw_centered E img ''JustLayMe'' title_font 120 WHITE h2) (\<lambda>h3.
     ebind (draw_centered E img ''Unfiltered AI Conversations'' subtitle_font 250
              ACCENT_PURPLE h3) (\<lambda>h4.
     ebind (draw_centered E img ''Chat Without Restrictions'' tagline_font 340
              WHITE h4) (\<lambda>h5.
     Inr (img, h5))))))"

text \<open>
  The two cards as the specification describes them: the gradient, one decorative shape
  and three strings, each at the horizontal offset \<open>(W - text_width) / 2\<close>.
\<close>

definition centered :: "env \<Rightarrow> font \<Rightarrow> string \<Rightarrow> rat" where
  "centered E f s = (of_int WIDTH - of_int (text_width E f s)) / 2"

definition og_image :: "env \<Rightarrow> image" where
  "og_image E =
     (case load_fonts E (dejavu_bold, 90) (dejavu, 48) (dejavu, 36) of
        (title_font, subtitle_font, tagline_font) \<Rightarrow>
          (gradient_image WIDTH HEIGHT (15, 15, 35) (6, 182, 212))
            \<lparr>im_drawn :=
               [Ellipse ((910, 360), (1150, 600)) ACCENT_PURPLE 3,
                Text (centered E title_font ''JustLayMe'', 150) ''JustLayMe'' WHITE title_font,
                Text (centered E subtitle_font ''Unfiltered AI Conversations'', 280)
                  ''Unfiltered AI Conversations'' ACCENT_CYAN subtitle_font,
                Text (centered E tagline_font ''Chat Without Restrictions'', 370)
                  ''Chat Without Restrictions'' LIGHT_GRAY tagline_font]\<rparr>)"

definition twitter_image :: "env \<Rightarrow> image" where
  "twitter_image E =
     (case load_fonts E (dejavu_bold, 85) (dejavu, 42) (dejavu, 32) of
        (title_font, subtitle_font, tagline_font) \<Rightarrow>
          (gradient_image WIDTH HEIGHT (15, 15, 35) (139, 92, 246))
            \<lparr>im_drawn :=
               [Rectangle ((50, 50), (100, 100)) ACCENT_PURPLE 3,
                Text (centered E title_font ''JustLayMe'', 120) ''JustLayMe'' WHITE title_font,
                Text (centered E subtitle_font ''Unfiltered AI Conversations'', 250)
                  ''Unfiltered AI Conversations'' ACCENT_PURPLE subtitle_font,
                Text (centered E tagline_font ''Chat Without Restrictions'', 340)
                  ''Chat Without Restrictions'' WHITE tagline_font]\<rparr>)"

text \<open>The strings drawn on an image, with their horizontal offsets and fonts.\<close>

fun text_entries :: "draw_op list \<Rightarrow> (rat \<times> string \<times> font) list" where
  "text_entries [] = []"
| "text_entries (Text p s fill f # ops) = (fst p, s, f) # text_entries ops"
| "text_entries (Ellipse box outline w # ops) = text_entries ops"
| "text_entries (Rectangle box outline w # ops) = text_entries ops"

definition drawn_texts :: "'e + (nat \<times> heap) \<Rightarrow> (rat \<times> string \<times> font) list" where
  "drawn_texts res = (case returned res of None \<Rightarrow> [] | Some im \<Rightarrow> text_entries (im_drawn im))"

text \<open>
  An environment in which everything works: the library is installed, the fonts load
  and measure every string 560 pixels wide, and files can be written.
\<close>

definition desktop_env :: env where
  "desktop_env =
     \<lparr>pil_importable = True,
      truetype_ok = (\<lambda>path sz. True),
      text_bbox = (\<lambda>f s. (0, 0, 560, 90)),
      save_ok = (\<lambda>path. True)\<rparr>"

subsection \<open>main and the module body\<close>

text \<open>
  The state of a run: the lines printed, the files written (in order, with the canvas
  handed to the encoder) and the object store. An exception leaves \<open>main\<close> together with
  the state reached. A write that fails leaves no file.
\<close>

record world =
  stdout :: "string list"
  files :: "(string \<times> image) list"
  objects :: heap

definition print :: "string \<Rightarrow> world \<Rightarrow> world" where
  "print s w = w\<lparr>stdout := stdout w @ [s]\<rparr>"

definition in_world ::
  "(heap \<Rightarrow> error + ('a \<times> heap)) \<Rightarrow> world \<Rightarrow> (error \<times> world) + ('a \<times> world)" where
  "in_world f w =
     (case f (objects w) of
        Inl e \<Rightarrow> Inl (e, w)
      | Inr (v, h) \<Rightarrow> Inr (v, w\<lparr>objects := h\<rparr>))"

text \<open>\<open>img.save(path, "JPEG", quality=90, optimize=True)\<close>.\<close>

definition save :: "env \<Rightarrow> nat \<Rightarrow> string \<Rightarrow> world \<Rightarrow> (error \<times> world) + world" where
  "save E img path w =
     (if \<not> img < length (objects w) then Inl (DanglingReference, w)
      else if save_ok E path then Inr (w\<lparr>files := files w @ [(path, objects w ! img)]\<rparr>)
      else Inl (OSError, w))"

definition output_dir :: string where
  "output_dir = ''/home/fastl/JustLayMe-react/public''"

definition newline :: char where
  "newline = CHR 0x0A"

text \<open>Lines 140 to 144 and lines 146 to 150.\<close>

definition main_og :: "env \<Rightarrow> world \<Rightarrow> (error \<times> world) + world" where
  "main_og E w =
     ebind (in_world (create_og_image E) w) (\<lambda>(og_img, w1).
     let og_path = os_path_join output_dir ''og-image.jpg'' in
     ebind (save E og_img og_path w1) (\<lambda>w2.
     Inr (print (''Created: '' @ og_path) w2)))"

definition main_twitter :: "env \<Rightarrow> world \<Rightarrow> (error \<times> world) + world" where
  "main_twitter E w =
     ebind (in_world (create_twitter_image E) w) (\<lambda>(twitter_img, w1).
     let twitter_path = os_path_join output_dir ''twitter-image.jpg'' in
     ebind (save E twitter_img twitter_path w1) (\<lambda>w2.
     Inr (print (''Created: '' @ twitter_path) w2)))"

definition usage_hint :: "string list" where
  \<open>usage_hint =
     [newline # ''Images generated successfully!'',
      ''Dimensions: 1200x630 pixels'',
      ''Format: JPEG (90% quality)'',
      newline # ''Add to your HTML head:'',
      ''  <meta property="og:image" content="https://yourdomain.com/og-image.jpg" />'',
      ''  <meta property="og:image:width" content="1200" />'',
      ''  <meta property="og:image:height" content="630" />'',
      ''  <meta name="twitter:image" content="https://yourdomain.com/twitter-image.jpg" />'']\<close>

definition main :: "env \<Rightarrow> world \<Rightarrow> (error \<times> world) + world" where
  "main E w =
     ebind (main_og E (print ''Generating OG and Twitter Card images...'' w)) (\<lambda>w1.
     ebind (main_twitter E w1) (\<lambda>w2.
     Inr (foldl (\<lambda>w s. print s w) w2 usage_hint)))"

definition remediation :: "string list" where
  "remediation =
     [''Error: PIL (Pillow) is not installed.'',
      newline # ''To create the images, install Pillow:'',
      ''  pip install Pillow'',
      newline # ''Or use the included specification document to create images manually.'']"

text \<open>
  The module body, run as a script: the \<open>try\<close> around everything, whose handler catches
  \<open>ImportError\<close> only, prints the remediation and exits with status 1. Any other
  exception is uncaught and ends the process with status 1 as well.
\<close>

record outcome =
  out_stdout :: "string list"
  out_files :: "(string \<times> image) list"
  out_objects :: heap
  exit_status :: int
  uncaught :: "error option"

definition initial_world :: world where
  "initial_world = \<lparr>stdout = [], files = [], objects = []\<rparr>"

definition script :: "env \<Rightarrow> outcome" where
  "script E =
     (case (if pil_importable E then main E initial_world
            else Inl (ImportError, initial_world)) of
        Inr w \<Rightarrow>
          \<lparr>out_stdout = stdout w, out_files = files w, out_objects = objects w,
           exit_status = 0, uncaught = None\<rparr>
      | Inl (e, w) \<Rightarrow>
          if e = ImportError then
            \<lparr>out_stdout = stdout w @ remediation, out_files = files w, out_objects = objects w,
             exit_status = 1, uncaught = None\<rparr>
          else
            \<lparr>out_stdout = stdout w, out_files = files w, out_objects = objects w,
             exit_status = 1, uncaught = Some e\<rparr>)"

text \<open>The two output paths and the first line printed, written out.\<close>

definition og_path :: string where
  "og_path = ''/home/fastl/JustLayMe-react/public/og-image.jpg''"

definition twitter_path :: string where
  "twitter_path = ''/home/fastl/JustLayMe-react/public/twitter-image.jpg''"

definition progress_line :: string where
  "progress_line = ''Generating OG and Twitter Card images...''"

text \<open>An environment in which no file can be written (the output directory is missing).\<close>

definition readonly_env :: env where
  "readonly_env =
     \<lparr>pil_importable = True,
      truetype_ok = (\<lambda>path sz. True),
      text_bbox = (\<lambda>f s. (0, 0, 560, 90)),
      save_ok = (\<lambda>path. False)\<rparr>"

text \<open>An environment without the imaging library.\<close>

definition bare_env :: env where
  "bare_env =
     \<lparr>pil_importable = False,
      truetype_ok = (\<lambda>path sz. False),
      text_bbox = (\<lambda>f s. (0, 0, 0, 0)),
      save_ok = (\<lambda>path. True)\<rparr>"

section \<open>Properties of binary64 rounding\<close>

declare bitlen.simps [simp del]

lemma bitlen_bounds: "0 < n \<Longrightarrow> 2 ^ (bitlen n - 1) \<le> n \<and> n < 2 ^ bitlen n"
proof (induction n rule: bitlen.induct)
  case (1 n)
  show ?case
  proof (cases "n div 2 = 0")
    case True
    with 1(2) have "n = 1" by (simp add: div_eq_0_iff) 
    then show ?thesis by (simp add: bitlen.simps [of "Suc 0"] bitlen.simps [of 0])
  next
    case False
    then have pos: "0 < n div 2" by simp
    from 1(2) have n0: "n \<noteq> 0" by simp
    from 1(1) [OF n0 pos]
    have ih: "2 ^ (bitlen (n div 2) - 1) \<le> n div 2" "n div 2 < 2 ^ bitlen (n div 2)"
      by simp_all
    have bl: "bitlen n = Suc (bitlen (n div 2))"
      using n0 by (simp add: bitlen.simps [of n])
    have blpos: "0 < bitlen (n div 2)"
      using pos by (simp add: bitlen.simps [of "n div 2"])
    then obtain k where k: "bitlen (n div 2) = Suc k" by (cases "bitlen (n div 2)") auto
    from ih k have "2 * 2 ^ k \<le> 2 * (n div 2)" by simp
    then have lo: "2 ^ Suc k \<le> n" by simp
    from ih k have "Suc (n div 2) \<le> 2 ^ Suc k" by simp
    then have "2 * Suc (n div 2) \<le> 2 * 2 ^ Suc k" by simp
    then have hi: "n < 2 ^ Suc (Suc k)" by simp
    show ?thesis using lo hi bl k by simp
  qed
qed

lemma bitlen_pos: "0 < n \<Longrightarrow> 0 < bitlen n"
  by (simp add: bitlen.simps [of n])

lemma float_exponent_bounds:
  assumes "0 < q"
  shows "2 powi float_exponent q \<le> q" and "q < 2 powi (float_exponent q + 1)"
proof -
  have "2 powi float_exponent q \<le> q \<and> q < 2 powi (float_exponent q + 1)"
  proof (cases "1 \<le> q")
    case True
    define n where "n = nat \<lfloor>q\<rfloor>"
    have fl1: "1 \<le> \<lfloor>q\<rfloor>" using True by (simp add: le_floor_iff)
    then have npos: "0 < n" by (simp add: n_def)
    have nq: "of_nat n \<le> q"
      using fl1 floor_correct [of q] by (simp add: n_def)
    have qn: "q < of_nat n + 1"
      using fl1 floor_correct [of q] by (simp add: n_def)
    from bitlen_bounds [OF npos] have b: "2 ^ (bitlen n - 1) \<le> n" "n < 2 ^ bitlen n" by simp_all
    have e: "float_exponent q = int (bitlen n) - 1"
      using True by (simp add: float_exponent_def n_def)
    have blp: "0 < bitlen n" using npos by (rule bitlen_pos)
    have e': "float_exponent q = int (bitlen n - 1)" using e blp by simp
    have "(2::rat) ^ (bitlen n - 1) = of_nat (2 ^ (bitlen n - 1))" by simp
    also have "\<dots> \<le> of_nat n" using b(1) by (simp only: of_nat_le_iff)
    finally have "(2::rat) ^ (bitlen n - 1) \<le> of_nat n" .
    then have "(2::rat) ^ (bitlen n - 1) \<le> q" using nq by (rule order_trans)
    then have lo: "(2::rat) powi float_exponent q \<le> q" by (simp only: e' power_int_of_nat)
    have "Suc n \<le> 2 ^ bitlen n" using b(2) by simp
    then have "(of_nat (Suc n) :: rat) \<le> of_nat (2 ^ bitlen n)" by (simp only: of_nat_le_iff)
    then have "of_nat n + 1 \<le> (2::rat) ^ bitlen n" by simp
    with qn have "q < (2::rat) ^ bitlen n" by simp
    moreover have "float_exponent q + 1 = int (bitlen n)" using e by simp
    ultimately have hi: "q < 2 powi (float_exponent q + 1)" by simp
    show ?thesis using lo hi by simp
  next
    case False
    then have q1: "q < 1" by simp
    define m where "m = nat (\<lceil>1 / q\<rceil> - 1)"
    have inv: "1 < 1 / q" using assms q1 by simp
    then have "(1::int) < \<lceil>1 / q\<rceil>" by (simp only: less_ceiling_iff of_int_1)
    then have c2: "2 \<le> \<lceil>1 / q\<rceil>" by linarith
    then have mpos: "0 < m" by (simp add: m_def)
    have "0 \<le> \<lceil>1 / q\<rceil> - 1" using c2 by linarith
    then have m_int: "int m = \<lceil>1 / q\<rceil> - 1" by (simp only: m_def int_nat_eq if_True)
    have mlt: "of_nat m < 1 / q"
    proof -
      have "(of_int (int m) :: rat) < 1 / q"
        unfolding m_int using ceiling_correct [of "1 / q"] by simp
      then show ?thesis by simp
    qed
    have mge: "1 / q \<le> of_nat m + 1"
    proof -
      have "1 / q \<le> of_int \<lceil>1 / q\<rceil>" by (rule le_of_int_ceiling)
      also have "\<dots> = of_int (int m + 1)" using m_int by simp
      finally show ?thesis by simp
    qed
    from bitlen_bounds [OF mpos] have b: "2 ^ (bitlen m - 1) \<le> m" "m < 2 ^ bitlen m" by simp_all
    have e: "float_exponent q = - int (bitlen m)"
      using False by (simp add: float_exponent_def m_def)
    have blp: "0 < bitlen m" using mpos by (rule bitlen_pos)
    have "Suc m \<le> 2 ^ bitlen m" using b(2) by simp
    then have "(of_nat (Suc m) :: rat) \<le> of_nat (2 ^ bitlen m)" by (simp only: of_nat_le_iff)
    then have "of_nat m + 1 \<le> (2::rat) ^ bitlen m" by simp
    with mge have "1 / q \<le> (2::rat) ^ bitlen m" by simp
    then have "1 \<le> (2::rat) ^ bitlen m * q" using assms by (simp add: field_simps)
    then have "1 / (2::rat) ^ bitlen m \<le> q" by (simp add: field_simps)
    then have lo: "2 powi float_exponent q \<le> q"
      by (simp add: e power_int_minus_divide)
    have "(2::rat) ^ (bitlen m - 1) = of_nat (2 ^ (bitlen m - 1))" by simp
    also have "\<dots> \<le> of_nat m" using b(1) by (simp only: of_nat_le_iff)
    also have "\<dots> < 1 / q" by (rule mlt)
    finally have "(2::rat) ^ (bitlen m - 1) * q < 1" using assms by (simp add: field_simps)
    then have "q < 1 / (2::rat) ^ (bitlen m - 1)" by (simp add: field_simps)
    moreover have "float_exponent q + 1 = - int (bitlen m - 1)" using e blp by simp
    ultimately have hi: "q < 2 powi (float_exponent q + 1)"
      by (simp add: power_int_minus_divide)
    show ?thesis using lo hi by simp
  qed
  then show "2 powi float_exponent q \<le> q" and "q < 2 powi (float_exponent q + 1)" by simp_all
qed

lemma float_exponent_mono:
  assumes "0 < x" "x \<le> y"
  shows "float_exponent x \<le> float_exponent y"
proof (rule ccontr)
  assume "\<not> float_exponent x \<le> float_exponent y"
  then have "float_exponent y + 1 \<le> float_exponent x" by simp
  then have "(2::rat) powi (float_exponent y + 1) \<le> 2 powi float_exponent x"
    by (intro power_int_increasing) simp_all
  also have "\<dots> \<le> x" using assms(1) by (rule float_exponent_bounds)
  also have "\<dots> \<le> y" by fact
  finally show False using float_exponent_bounds(2) [of y] assms by simp
qed


lemma round_half_even_of_int [simp]: "round_half_even (of_int n) = n"
  by (simp add: round_half_even_def)

lemma round_half_even_cases:
  "round_half_even q = \<lfloor>q\<rfloor> \<or> round_half_even q = \<lfloor>q\<rfloor> + 1"
  by (simp add: round_half_even_def Let_def)

lemma round_half_even_mono:
  assumes "x \<le> y"
  shows "round_half_even x \<le> round_half_even y"
proof (cases "\<lfloor>x\<rfloor> = \<lfloor>y\<rfloor>")
  case True
  have "x - of_int \<lfloor>x\<rfloor> \<le> y - of_int \<lfloor>x\<rfloor>" using assms by simp
  then show ?thesis
    using True by (auto simp add: round_half_even_def Let_def)
next
  case False
  have "\<lfloor>x\<rfloor> \<le> \<lfloor>y\<rfloor>" using assms by (rule floor_mono)
  with False have "\<lfloor>x\<rfloor> + 1 \<le> \<lfloor>y\<rfloor>" by simp
  moreover have "round_half_even x \<le> \<lfloor>x\<rfloor> + 1"
    using round_half_even_cases [of x] by auto
  moreover have "\<lfloor>y\<rfloor> \<le> round_half_even y"
    using round_half_even_cases [of y] by auto
  ultimately show ?thesis by linarith
qed

lemma round_half_even_le: "q \<le> of_int n \<Longrightarrow> round_half_even q \<le> n"
  using round_half_even_mono [of q "of_int n"] by simp

lemma round_half_even_ge: "of_int n \<le> q \<Longrightarrow> n \<le> round_half_even q"
  using round_half_even_mono [of "of_int n" q] by simp

lemma ulp_pos [simp]: "0 < ulp q"
  by (simp add: ulp_def)

lemma ulp_nonneg [simp]: "0 \<le> ulp q"
  by (simp add: ulp_def)

lemma pow2_shift: "(2::rat) powi (a + b) = 2 powi a * 2 powi b"
  by (simp add: power_int_add)

lemma pow2_53: "(2::rat) powi (e + 1) = 2 ^ 53 * 2 powi (e - 52)"
proof -
  have "(2::rat) powi (53 + (e - 52)) = 2 powi 53 * 2 powi (e - 52)"
    by (rule pow2_shift)
  moreover have "53 + (e - 52) = e + 1" by simp
  ultimately show ?thesis by simp
qed

lemma pow2_52: "(2::rat) powi e = 2 ^ 52 * 2 powi (e - 52)"
proof -
  have "(2::rat) powi (52 + (e - 52)) = 2 powi 52 * 2 powi (e - 52)"
    by (rule pow2_shift)
  then show ?thesis by simp
qed

lemma round_pos_upper:
  assumes "0 < q"
  shows "round_pos q \<le> 2 powi (max (float_exponent q) (- 1022) + 1)"
proof -
  define e where "e = max (float_exponent q) (- 1022)"
  have u: "ulp q = 2 powi (e - 52)" by (simp add: ulp_def e_def)
  have "q < 2 powi (float_exponent q + 1)" using assms by (rule float_exponent_bounds)
  also have "\<dots> \<le> 2 powi (e + 1)" by (intro power_int_increasing) (simp_all add: e_def)
  finally have "q \<le> 2 powi (e + 1)" by simp
  moreover have "(2::rat) powi (e + 1) = 2 powi 53 * ulp q"
    unfolding u using pow2_53 [of e] by simp
  ultimately have "q / ulp q \<le> 2 powi 53" by (simp add: field_simps)
  then have "q / ulp q \<le> of_int (2 ^ 53)" by simp
  then have "round_half_even (q / ulp q) \<le> 2 ^ 53" by (rule round_half_even_le)
  then have "(of_int (round_half_even (q / ulp q)) :: rat) \<le> of_int (2 ^ 53)"
    by (simp only: of_int_le_iff)
  then have "round_pos q \<le> of_int (2 ^ 53) * ulp q"
    unfolding round_pos_def by (intro mult_right_mono) simp_all
  also have "\<dots> = 2 powi (e + 1)" unfolding u using pow2_53 [of e] by simp
  finally show ?thesis by (simp add: e_def)
qed

lemma round_pos_lower:
  assumes "0 < q" and "- 1022 \<le> float_exponent q"
  shows "2 powi float_exponent q \<le> round_pos q"
proof -
  define e where "e = float_exponent q"
  have u: "ulp q = 2 powi (e - 52)" using assms(2) by (simp add: ulp_def e_def max_def)
  have "(2::rat) powi e = 2 powi 52 * ulp q"
    unfolding u using pow2_52 [of e] by simp
  moreover have "2 powi e \<le> q" unfolding e_def using assms(1) by (rule float_exponent_bounds)
  ultimately have "2 powi 52 \<le> q / ulp q" by (simp add: field_simps)
  then have "of_int (2 ^ 52) \<le> q / ulp q" by simp
  then have "2 ^ 52 \<le> round_half_even (q / ulp q)" by (rule round_half_even_ge)
  then have "(of_int (2 ^ 52) :: rat) \<le> of_int (round_half_even (q / ulp q))"
    by (simp only: of_int_le_iff)
  then have "of_int (2 ^ 52) * ulp q \<le> round_pos q"
    unfolding round_pos_def by (intro mult_right_mono) simp_all
  moreover have "of_int (2 ^ 52) * ulp q = 2 powi e"
    unfolding u using pow2_52 [of e] by simp
  ultimately show ?thesis by (simp add: e_def)
qed

lemma round_pos_nonneg:
  assumes "0 < q"
  shows "0 \<le> round_pos q"
proof -
  have "0 \<le> q / ulp q" using assms by (intro divide_nonneg_pos) simp_all
  then have "of_int 0 \<le> q / ulp q" by simp
  then have "0 \<le> round_half_even (q / ulp q)" by (rule round_half_even_ge)
  then show ?thesis by (simp add: round_pos_def)
qed

lemma round_pos_mono:
  assumes "0 < x" and "x \<le> y"
  shows "round_pos x \<le> round_pos y"
proof -
  define ex where "ex = max (float_exponent x) (- 1022)"
  define ey where "ey = max (float_exponent y) (- 1022)"
  have ypos: "0 < y" using assms by simp
  have le: "ex \<le> ey"
    using float_exponent_mono [OF assms] by (simp add: ex_def ey_def)
  show ?thesis
  proof (cases "ex = ey")
    case True
    then have u: "ulp x = ulp y" by (simp add: ulp_def ex_def ey_def)
    have "x / ulp y \<le> y / ulp y" using assms(2) by (intro divide_right_mono) simp_all
    then have "round_half_even (x / ulp y) \<le> round_half_even (y / ulp y)"
      by (rule round_half_even_mono)
    then have "(of_int (round_half_even (x / ulp y)) :: rat) \<le> of_int (round_half_even (y / ulp y))"
      by (simp only: of_int_le_iff)
    then show ?thesis
      unfolding round_pos_def u by (intro mult_right_mono) simp_all
  next
    case False
    with le have lt: "ex + 1 \<le> ey" by simp
    then have "- 1022 < ey" by (simp add: ex_def)
    then have ey: "ey = float_exponent y" "- 1022 \<le> float_exponent y"
      by (simp_all add: ey_def max_def split: if_splits)
    have "round_pos x \<le> 2 powi (ex + 1)"
      unfolding ex_def using assms(1) by (rule round_pos_upper)
    also have "\<dots> \<le> 2 powi ey" using lt by (intro power_int_increasing) simp_all
    also have "\<dots> \<le> round_pos y"
      unfolding ey(1) using ypos ey(2) by (rule round_pos_lower)
    finally show ?thesis .
  qed
qed

lemma fl_0 [simp]: "fl 0 = 0"
  by (simp add: fl_def)

lemma fl_mono:
  assumes "x \<le> y"
  shows "fl x \<le> fl y"
proof -
  consider "0 < x" | "x \<le> 0" "0 \<le> y" | "y < 0" by linarith
  then show ?thesis
  proof cases
    case 1
    then have "0 < y" using assms by simp
    with 1 show ?thesis using round_pos_mono [OF 1 assms] by (simp add: fl_def)
  next
    case 2
    have "fl x \<le> 0" using 2(1) round_pos_nonneg [of "- x"] by (simp add: fl_def)
    moreover have "0 \<le> fl y" using 2(2) round_pos_nonneg [of y] by (simp add: fl_def)
    ultimately show ?thesis by simp
  next
    case 3
    then have x: "x < 0" using assms by simp
    have "round_pos (- y) \<le> round_pos (- x)"
      using 3 assms by (intro round_pos_mono) simp_all
    then show ?thesis using 3 x by (simp add: fl_def)
  qed
qed

lemma fl_minus: "fl (- q) = - fl q"
  by (simp add: fl_def)

lemma round_pos_exact:
  assumes "0 < n" and "n < 2 ^ 53" and "k \<le> 1074"
  shows "round_pos (of_int n / 2 ^ k) = of_int n / 2 ^ k"
proof -
  define q :: rat where "q = of_int n / 2 ^ k"
  define e where "e = max (float_exponent q) (- 1022)"
  have qpos: "0 < q" using assms(1) by (simp add: q_def)
  have q2: "q = of_int n * 2 powi (- int k)" by (simp add: q_def power_int_minus_divide)
  have "(of_int n :: rat) < of_int (2 ^ 53)" using assms(2) by (simp only: of_int_less_iff)
  then have "of_int n * 2 powi (- int k) < (2::rat) powi 53 * 2 powi (- int k)"
    by (intro mult_strict_right_mono) simp_all
  then have "q < 2 powi (53 - int k)"
    unfolding q2 using pow2_shift [of 53 "- int k"] by simp
  with float_exponent_bounds(1) [OF qpos] have "(2::rat) powi float_exponent q < 2 powi (53 - int k)"
    by simp
  then have "float_exponent q < 53 - int k"
    by (metis linorder_not_less power_int_increasing one_le_numeral)
  then have ele: "e \<le> 52 - int k" using assms(3) by (simp add: e_def)
  define j where "j = nat (52 - int k - e)"
  have j: "int j = 52 - int k - e" using ele by (simp add: j_def)
  define u where "u = ulp q"
  have upos: "0 < u" by (simp add: u_def)
  have u: "u = 2 powi (e - 52)" by (simp add: u_def ulp_def e_def)
  have "- int k = int j + (e - 52)" using j by simp
  then have "(2::rat) powi (- int k) = 2 powi (int j) * 2 powi (e - 52)"
    by (simp only: pow2_shift)
  then have s: "(2::rat) powi (- int k) = 2 ^ j * u" by (simp add: u)
  have "q / u = of_int n * 2 ^ j * u / u" unfolding q2 s by simp
  also have "\<dots> = of_int (n * 2 ^ j)" using upos by simp
  finally have "q / u = of_int (n * 2 ^ j)" .
  then have "round_half_even (q / u) = n * 2 ^ j" by (simp only: round_half_even_of_int)
  then have "round_pos q = of_int (n * 2 ^ j) * u" by (simp add: round_pos_def u_def)
  also have "\<dots> = of_int n * (2 ^ j * u)" by simp
  also have "\<dots> = q" unfolding q2 s ..
  finally show ?thesis by (simp add: q_def)
qed

lemma fl_exact:
  assumes "\<bar>n\<bar> < 2 ^ 53" and "k \<le> 1074"
  shows "fl (of_int n / 2 ^ k) = of_int n / 2 ^ k"
proof -
  consider "n = 0" | "0 < n" | "n < 0" by linarith
  then show ?thesis
  proof cases
    case 1
    then show ?thesis by simp
  next
    case 2
    then have "0 < (of_int n :: rat) / 2 ^ k" by simp
    then show ?thesis using round_pos_exact [OF 2 _ assms(2)] assms(1) 2 by (simp add: fl_def)
  next
    case 3
    then have pos: "0 < - n" by simp
    have neg: "(of_int n :: rat) / 2 ^ k < 0" using 3 by (simp add: divide_neg_pos)
    have "round_pos (of_int (- n) / 2 ^ k) = of_int (- n) / 2 ^ k"
      using assms(1) 3 by (intro round_pos_exact [OF pos _ assms(2)]) simp
    then show ?thesis using neg by (simp add: fl_def)
  qed
qed

lemma fl_of_int: "\<bar>n\<bar> < 2 ^ 53 \<Longrightarrow> fl (of_int n) = of_int n"
  using fl_exact [of n 0] by simp

section \<open>Properties of the arithmetic\<close>

lemma py_int_of_int [simp]: "py_int (of_int n) = n"
  by (simp add: py_int_def)

lemma py_int_mono: "x \<le> y \<Longrightarrow> py_int x \<le> py_int y"
proof -
  assume le: "x \<le> y"
  consider "0 \<le> x" | "x < 0" "0 \<le> y" | "y < 0" by linarith
  then show ?thesis
  proof cases
    case 1
    then show ?thesis using le by (simp add: py_int_def floor_mono)
  next
    case 2
    have "\<lceil>x\<rceil> \<le> 0" using 2(1) by (simp add: ceiling_le_iff)
    moreover have "0 \<le> \<lfloor>y\<rfloor>" using 2(2) by simp
    moreover have "py_int x = \<lceil>x\<rceil>" using 2(1) by (simp add: py_int_def)
    moreover have "py_int y = \<lfloor>y\<rfloor>" using 2(2) by (simp add: py_int_def)
    ultimately show ?thesis by linarith
  next
    case 3
    then show ?thesis using le by (simp add: py_int_def ceiling_mono)
  qed
qed

lemma fl_1 [simp]: "fl 1 = 1"
  using fl_of_int [of 1] by simp

lemma fl_nonneg: "0 \<le> q \<Longrightarrow> 0 \<le> fl q"
  using fl_mono [of 0 q] by simp

lemma fl_le_of_int: "q \<le> of_int n \<Longrightarrow> \<bar>n\<bar> < 2 ^ 53 \<Longrightarrow> fl q \<le> of_int n"
  using fl_mono [of q "of_int n"] by (simp add: fl_of_int)

lemma fl_ge_of_int: "of_int n \<le> q \<Longrightarrow> \<bar>n\<bar> < 2 ^ 53 \<Longrightarrow> of_int n \<le> fl q"
  using fl_mono [of "of_int n" q] by (simp add: fl_of_int)

lemma fl_unit:
  assumes "0 \<le> a" "a \<le> b" "0 < b"
  shows "0 \<le> fl (of_int a / of_int b)" and "fl (of_int a / of_int b) \<le> 1"
proof -
  have "(0::rat) \<le> of_int a / of_int b" using assms by simp
  then show "0 \<le> fl (of_int a / of_int b)" by (rule fl_nonneg)
  have "(of_int a :: rat) / of_int b \<le> 1" using assms by simp
  then show "fl (of_int a / of_int b) \<le> 1" using fl_mono [of "of_int a / of_int b" 1] by simp
qed

lemma truediv_unit:
  assumes "0 \<le> a" "a \<le> b" "0 < b"
  shows "truediv a b = Inr (fl (of_int a / of_int b))"
proof -
  have "\<bar>fl (of_int a / of_int b)\<bar> \<le> 1" using fl_unit [OF assms] by simp
  also have "(1::rat) < 2 ^ 1024" by simp
  finally show ?thesis using assms(3) by (simp add: truediv_def Let_def)
qed

lemma float_of_int_small: "\<bar>n\<bar> < 2 ^ 53 \<Longrightarrow> float_of_int n = Inr (of_int n)"
proof -
  assume n: "\<bar>n\<bar> < 2 ^ 53"
  then have "(of_int \<bar>n\<bar> :: rat) < of_int (2 ^ 53)" by (simp only: of_int_less_iff)
  then have "\<bar>of_int n :: rat\<bar> < 2 ^ 53" by simp
  also have "(2::rat) ^ 53 < 2 ^ 1024" by simp
  finally show ?thesis using n by (simp add: float_of_int_def fl_of_int)
qed


section \<open>Parsing colours\<close>

lemma hex_digit_range: "hex_digit c = Some v \<Longrightarrow> 0 \<le> v \<and> v \<le> 15"
  by (auto simp add: hex_digit_def Let_def split: if_splits)

lemma hex_digit_plain:
  assumes "hex_digit c = Some v"
  shows "\<not> is_space c" and "c \<noteq> CHR ''-''" and "c \<noteq> CHR ''+''" and "c \<noteq> CHR ''_''"
    and "c \<noteq> CHR ''x''" and "c \<noteq> CHR ''X''"
  using assms by (auto simp add: hex_digit_def is_space_def Let_def split: if_splits)

lemma int_base16_pair:
  assumes a: "hex_digit a = Some x" and b: "hex_digit b = Some y"
  shows "int_base16 [a, b] = Inr (16 * x + y)"
proof -
  have t: "rev (dropWhile is_space (rev (dropWhile is_space [a, b]))) = [a, b]"
    using hex_digit_plain(1) [OF a] hex_digit_plain(1) [OF b] by simp
  have s: "strip_sign [a, b] = (False, [a, b])"
    using hex_digit_plain(2,3) [OF a] by (simp add: strip_sign_def)
  have p: "strip_prefix16 [a, b] = [a, b]"
    using hex_digit_plain(5,6) [OF b] by (simp add: strip_prefix16_def)
  have d: "digits16 x [b] = Some (16 * x + y)"
    using hex_digit_plain(4) [OF b] b by simp
  show ?thesis
    unfolding int_base16_def t Let_def s by (simp add: p a d del: digits16.simps)
qed

lemma getrgb_channels:
  assumes "getrgb c = Inr (r, g, b)"
  shows "int_base16 (slice 1 3 c) = Inr r" and "int_base16 (slice 3 5 c) = Inr g"
    and "int_base16 (slice 5 7 c) = Inr b"
    and "0 \<le> r \<and> r \<le> 255" and "0 \<le> g \<and> g \<le> 255" and "0 \<le> b \<and> b \<le> 255"
proof -
  from assms obtain h r1 r0 g1 g0 b1 b0 where c: "c = [h, r1, r0, g1, g0, b1, b0]"
    by (auto simp add: getrgb_def split: list.splits)
  from assms obtain x1 x0 y1 y0 z1 z0 where
    d: "hex_digit r1 = Some x1" "hex_digit r0 = Some x0" "hex_digit g1 = Some y1"
       "hex_digit g0 = Some y0" "hex_digit b1 = Some z1" "hex_digit b0 = Some z0"
    and v: "r = 16 * x1 + x0" "g = 16 * y1 + y0" "b = 16 * z1 + z0"
    unfolding c getrgb_def by (auto split: option.splits if_splits)
  show "int_base16 (slice 1 3 c) = Inr r"
    using int_base16_pair [OF d(1) d(2)] by (simp add: c slice_def v)
  show "int_base16 (slice 3 5 c) = Inr g"
    using int_base16_pair [OF d(3) d(4)] by (simp add: c slice_def v)
  show "int_base16 (slice 5 7 c) = Inr b"
    using int_base16_pair [OF d(5) d(6)] by (simp add: c slice_def v)
  show "0 \<le> r \<and> r \<le> 255"
    using hex_digit_range [OF d(1)] hex_digit_range [OF d(2)] by (simp add: v)
  show "0 \<le> g \<and> g \<le> 255"
    using hex_digit_range [OF d(3)] hex_digit_range [OF d(4)] by (simp add: v)
  show "0 \<le> b \<and> b \<le> 255"
    using hex_digit_range [OF d(5)] hex_digit_range [OF d(6)] by (simp add: v)
qed

section \<open>One pixel of the gradient\<close>

lemma interpolate_eq:
  assumes "\<bar>c1\<bar> \<le> 255" and "\<bar>c2\<bar> \<le> 255"
  shows "interpolate c1 c2 r = Inr (binary64_channel c1 c2 r)"
proof -
  have "\<bar>c2 - c1\<bar> < 2 ^ 53" and "\<bar>c1\<bar> < 2 ^ 53" using assms by simp_all
  then show ?thesis
    by (simp add: interpolate_def ebind_def float_of_int_small binary64_channel_def
        float_add_def float_mul_def)
qed

lemma binary64_channel_mono:
  assumes "r \<le> r'"
  shows "c1 \<le> c2 \<Longrightarrow> binary64_channel c1 c2 r \<le> binary64_channel c1 c2 r'"
    and "c2 \<le> c1 \<Longrightarrow> binary64_channel c1 c2 r' \<le> binary64_channel c1 c2 r"
proof -
  assume "c1 \<le> c2"
  then have "(0::rat) \<le> of_int (c2 - c1)" by simp
  then have "of_int (c2 - c1) * r \<le> of_int (c2 - c1) * r'"
    using assms by (rule mult_left_mono [rotated])
  then have "fl (of_int (c2 - c1) * r) \<le> fl (of_int (c2 - c1) * r')" by (rule fl_mono)
  then have "of_int c1 + fl (of_int (c2 - c1) * r) \<le> of_int c1 + fl (of_int (c2 - c1) * r')"
    by simp
  then have "fl (of_int c1 + fl (of_int (c2 - c1) * r))
      \<le> fl (of_int c1 + fl (of_int (c2 - c1) * r'))" by (rule fl_mono)
  then show "binary64_channel c1 c2 r \<le> binary64_channel c1 c2 r'"
    unfolding binary64_channel_def by (rule py_int_mono)
next
  assume "c2 \<le> c1"
  then have "of_int (c2 - c1) \<le> (0::rat)" by simp
  then have "of_int (c2 - c1) * r' \<le> of_int (c2 - c1) * r"
    using assms by (rule mult_left_mono_neg [rotated])
  then have "fl (of_int (c2 - c1) * r') \<le> fl (of_int (c2 - c1) * r)" by (rule fl_mono)
  then have "of_int c1 + fl (of_int (c2 - c1) * r') \<le> of_int c1 + fl (of_int (c2 - c1) * r)"
    by simp
  then have "fl (of_int c1 + fl (of_int (c2 - c1) * r'))
      \<le> fl (of_int c1 + fl (of_int (c2 - c1) * r))" by (rule fl_mono)
  then show "binary64_channel c1 c2 r' \<le> binary64_channel c1 c2 r"
    unfolding binary64_channel_def by (rule py_int_mono)
qed

lemma binary64_channel_0:
  assumes "\<bar>c1\<bar> < 2 ^ 53"
  shows "binary64_channel c1 c2 0 = c1"
  using assms by (simp add: binary64_channel_def fl_of_int)

lemma binary64_channel_1:
  assumes "\<bar>c1\<bar> \<le> 255" and "\<bar>c2\<bar> \<le> 255"
  shows "binary64_channel c1 c2 1 = c2"
proof -
  have "\<bar>c2 - c1\<bar> < 2 ^ 53" and "\<bar>c2\<bar> < 2 ^ 53" using assms by simp_all
  then have a: "fl (of_int (c2 - c1)) = of_int (c2 - c1)" and b: "fl (of_int c2) = of_int c2"
    by (simp_all only: fl_of_int)
  have c: "(of_int c1 :: rat) + of_int (c2 - c1) = of_int c2" by simp
  show ?thesis unfolding binary64_channel_def mult_1_right a c b by (rule py_int_of_int)
qed

lemma binary64_channel_between:
  assumes "0 \<le> r" and "r \<le> 1" and "\<bar>c1\<bar> \<le> 255" and "\<bar>c2\<bar> \<le> 255"
  shows "min c1 c2 \<le> binary64_channel c1 c2 r" and "binary64_channel c1 c2 r \<le> max c1 c2"
proof -
  have c1: "\<bar>c1\<bar> < 2 ^ 53" using assms(3) by simp
  have "min c1 c2 \<le> binary64_channel c1 c2 r \<and> binary64_channel c1 c2 r \<le> max c1 c2"
  proof (cases "c1 \<le> c2")
    case True
    have "binary64_channel c1 c2 0 \<le> binary64_channel c1 c2 r"
      using assms(1) True by (rule binary64_channel_mono(1))
    moreover have "binary64_channel c1 c2 r \<le> binary64_channel c1 c2 1"
      using assms(2) True by (rule binary64_channel_mono(1))
    ultimately show ?thesis
      using True by (simp add: binary64_channel_0 [OF c1] binary64_channel_1 [OF assms(3,4)])
  next
    case False
    then have le: "c2 \<le> c1" by simp
    have "binary64_channel c1 c2 r \<le> binary64_channel c1 c2 0"
      using assms(1) le by (rule binary64_channel_mono(2))
    moreover have "binary64_channel c1 c2 1 \<le> binary64_channel c1 c2 r"
      using assms(2) le by (rule binary64_channel_mono(2))
    ultimately show ?thesis
      using le by (simp add: binary64_channel_0 [OF c1] binary64_channel_1 [OF assms(3,4)])
  qed
  then show "min c1 c2 \<le> binary64_channel c1 c2 r" and "binary64_channel c1 c2 r \<le> max c1 c2"
    by simp_all
qed

lemma binary64_ratio_unit:
  assumes "0 \<le> x" "x < W" "0 \<le> y" "y < H"
  shows "0 \<le> binary64_ratio W H x y" and "binary64_ratio W H x y \<le> 1"
  unfolding binary64_ratio_def using assms by (intro fl_unit; simp)+

lemma binary64_ratio_mono:
  assumes "x + y \<le> x' + y'" and "0 < W + H"
  shows "binary64_ratio W H x y \<le> binary64_ratio W H x' y'"
proof -
  have "(of_int (x + y) :: rat) \<le> of_int (x' + y')" using assms(1) by (simp only: of_int_le_iff)
  moreover have "(0::rat) < of_int (W + H)" using assms(2) by (simp only: of_int_0_less_iff)
  ultimately have "(of_int (x + y) :: rat) / of_int (W + H) \<le> of_int (x' + y') / of_int (W + H)"
    by (simp add: divide_right_mono)
  then show ?thesis unfolding binary64_ratio_def by (rule fl_mono)
qed

lemma gradient_ratio_eq:
  assumes "0 \<le> x" "x < W" "0 \<le> y" "y < H"
  shows "gradient_ratio W H x y = Inr (binary64_ratio W H x y)"
  unfolding gradient_ratio_def binary64_ratio_def using assms by (intro truediv_unit) simp_all

section \<open>The loops of create_gradient_background\<close>

lemma painted_empty [simp]: "painted F {} im = im"
  by (simp add: painted_def)

lemma painted_union: "painted F S (painted F T im) = painted F (S \<union> T) im"
  by (auto simp add: painted_def fun_eq_iff)

lemma painted_size [simp]: "im_size (painted F S im) = im_size im"
  by (simp add: painted_def)

lemma clip8_id: "0 \<le> v \<Longrightarrow> v \<le> 255 \<Longrightarrow> clip8 v = v"
  by (simp add: clip8_def)

lemma pixels_setitem_in_range:
  assumes "a < length h" and "im_size (h ! a) = (W, H)"
    and "0 \<le> x" "x < W" "0 \<le> y" "y < H"
    and "0 \<le> r \<and> r \<le> 255" "0 \<le> g \<and> g \<le> 255" "0 \<le> b \<and> b \<le> 255"
  shows "pixels_setitem a (x, y) (r, g, b) h =
    Inr (h[a := (h ! a)\<lparr>im_pixels := (im_pixels (h ! a))((x, y) \<mapsto> (r, g, b))\<rparr>])"
  using assms by (simp add: pixels_setitem_def heap_update_def clip8_id)

lemma binary64_pixel_range:
  assumes "0 \<le> x" "x < W" "0 \<le> y" "y < H"
    and "0 \<le> r1 \<and> r1 \<le> 255" "0 \<le> r2 \<and> r2 \<le> 255"
  shows "0 \<le> binary64_channel r1 r2 (binary64_ratio W H x y) \<and> binary64_channel r1 r2 (binary64_ratio W H x y) \<le> 255"
proof -
  have a: "\<bar>r1\<bar> \<le> 255" "\<bar>r2\<bar> \<le> 255" using assms(5,6) by simp_all
  note u = binary64_ratio_unit [OF assms(1-4)]
  show ?thesis using binary64_channel_between [OF u a] assms(5,6) by linarith
qed

lemma gradient_body_eq:
  assumes c1: "getrgb color1 = Inr (r1, g1, b1)" and c2: "getrgb color2 = Inr (r2, g2, b2)"
    and xy: "0 \<le> x" "x < W" "0 \<le> y" "y < H"
    and a: "a < length h" "im_size (h ! a) = (W, H)"
  shows "gradient_body W H color1 color2 a x y h =
    Inr (h[a := painted (binary64_pixel W H (r1, g1, b1) (r2, g2, b2)) {(x, y)} (h ! a)])"
proof -
  note p1 = getrgb_channels [OF c1]
  note p2 = getrgb_channels [OF c2]
  let ?q = "binary64_ratio W H x y"
  have i: "interpolate r1 r2 ?q = Inr (binary64_channel r1 r2 ?q)"
    "interpolate g1 g2 ?q = Inr (binary64_channel g1 g2 ?q)"
    "interpolate b1 b2 ?q = Inr (binary64_channel b1 b2 ?q)"
    using p1(4-6) p2(4-6) by (simp_all add: interpolate_eq)
  have s: "pixels_setitem a (x, y)
      (binary64_channel r1 r2 ?q, binary64_channel g1 g2 ?q, binary64_channel b1 b2 ?q) h =
    Inr (h[a := (h ! a)\<lparr>im_pixels := (im_pixels (h ! a))((x, y) \<mapsto>
      (binary64_channel r1 r2 ?q, binary64_channel g1 g2 ?q, binary64_channel b1 b2 ?q))\<rparr>])"
    using a xy
    by (intro pixels_setitem_in_range binary64_pixel_range [OF xy] p1(4-6) p2(4-6))
  have e: "(h ! a)\<lparr>im_pixels := (im_pixels (h ! a))((x, y) \<mapsto>
      (binary64_channel r1 r2 ?q, binary64_channel g1 g2 ?q, binary64_channel b1 b2 ?q))\<rparr> =
    painted (binary64_pixel W H (r1, g1, b1) (r2, g2, b2)) {(x, y)} (h ! a)"
  proof -
    have "(im_pixels (h ! a))((x, y) \<mapsto>
        (binary64_channel r1 r2 ?q, binary64_channel g1 g2 ?q, binary64_channel b1 b2 ?q)) =
      (\<lambda>p. if p \<in> {(x, y)} then Some (binary64_pixel W H (r1, g1, b1) (r2, g2, b2) p)
        else im_pixels (h ! a) p)"
      by (auto simp add: binary64_pixel_def Let_def fun_eq_iff)
    then show ?thesis by (simp only: painted_def)
  qed
  show ?thesis
    unfolding gradient_body_def gradient_ratio_eq [OF xy] p1(1-3) p2(1-3)
    by (simp add: ebind_def i s e)
qed

lemma for_loop_paint:
  assumes step: "\<And>i h. i \<in> set js \<Longrightarrow> a < length h \<Longrightarrow> im_size (h ! a) = sz \<Longrightarrow>
      body i h = Inr (h[a := painted F (S i) (h ! a)])"
    and "a < length h" and "im_size (h ! a) = sz"
  shows "for_loop js body h = Inr (h[a := painted F (\<Union>i\<in>set js. S i) (h ! a)])"
  using assms
proof (induction js arbitrary: h)
  case Nil
  then show ?case by simp
next
  case (Cons j js)
  let ?h1 = "h[a := painted F (S j) (h ! a)]"
  have b: "body j h = Inr ?h1" using Cons.prems by simp
  have l: "a < length ?h1" using Cons.prems(2) by simp
  have z: "im_size (?h1 ! a) = sz" using Cons.prems(2,3) by simp
  have "for_loop js body ?h1 = Inr (?h1[a := painted F (\<Union>i\<in>set js. S i) (?h1 ! a)])"
    using Cons.prems(1) l z by (intro Cons.IH) simp_all
  also have "?h1[a := painted F (\<Union>i\<in>set js. S i) (?h1 ! a)] =
      h[a := painted F (\<Union>i\<in>set (j # js). S i) (h ! a)]"
    using Cons.prems(2) by (simp add: painted_union Un_commute)
  finally show ?case using b by simp
qed

lemma set_py_range: "set (py_range n) = {0..n - 1}"
  by (simp add: py_range_def)

lemma gradient_loops_eq:
  assumes c1: "getrgb color1 = Inr k1" and c2: "getrgb color2 = Inr k2"
    and a: "a < length h" "im_size (h ! a) = (W, H)"
  shows "for_loop (py_range W)
      (\<lambda>x. for_loop (py_range H) (\<lambda>y. gradient_body W H color1 color2 a x y)) h =
    Inr (h[a := painted (binary64_pixel W H k1 k2) ({0..W - 1} \<times> {0..H - 1}) (h ! a)])"
proof -
  obtain r1 g1 b1 where k1: "k1 = (r1, g1, b1)" by (cases k1) auto
  obtain r2 g2 b2 where k2: "k2 = (r2, g2, b2)" by (cases k2) auto
  let ?F = "binary64_pixel W H k1 k2"
  have inner: "for_loop (py_range H) (\<lambda>y. gradient_body W H color1 color2 a x y) h' =
      Inr (h'[a := painted ?F ({x} \<times> {0..H - 1}) (h' ! a)])"
    if "x \<in> set (py_range W)" "a < length h'" "im_size (h' ! a) = (W, H)" for x h'
  proof -
    have x: "0 \<le> x" "x < W" using that(1) by (simp_all add: set_py_range)
    have "for_loop (py_range H) (\<lambda>y. gradient_body W H color1 color2 a x y) h' =
        Inr (h'[a := painted ?F (\<Union>y\<in>set (py_range H). {(x, y)}) (h' ! a)])"
    proof (rule for_loop_paint [where sz = "(W, H)"])
      fix y and h'' :: heap
      assume "y \<in> set (py_range H)" "a < length h''" "im_size (h'' ! a) = (W, H)"
      then show "gradient_body W H color1 color2 a x y h'' =
          Inr (h''[a := painted ?F {(x, y)} (h'' ! a)])"
        using c1 c2 x unfolding k1 k2 by (intro gradient_body_eq) (simp_all add: set_py_range)
    qed (use that in simp_all)
    moreover have "(\<Union>y\<in>set (py_range H). {(x, y)}) = {x} \<times> {0..H - 1}"
      by (auto simp add: set_py_range)
    ultimately show ?thesis by simp
  qed
  have "for_loop (py_range W)
      (\<lambda>x. for_loop (py_range H) (\<lambda>y. gradient_body W H color1 color2 a x y)) h =
    Inr (h[a := painted ?F (\<Union>x\<in>set (py_range W). {x} \<times> {0..H - 1}) (h ! a)])"
    by (rule for_loop_paint [where sz = "(W, H)"]) (use inner a in simp_all)
  moreover have "(\<Union>x\<in>set (py_range W). {x} \<times> {0..H - 1}) = {0..W - 1} \<times> {0..H - 1}"
    by (auto simp add: set_py_range)
  ultimately show ?thesis by simp
qed

lemma create_gradient_background_eq:
  assumes c1: "getrgb color1 = Inr k1" and c2: "getrgb color2 = Inr k2"
    and "0 \<le> W" and "0 \<le> H" and "W \<le> INT_MAX div 4 - 1" and "H \<le> INT_MAX"
  shows "create_gradient_background W H color1 color2 h =
    Inr (length h, h @ [gradient_image W H k1 k2])"
proof -
  let ?im0 = "\<lparr>im_size = (W, H),
      im_pixels = (\<lambda>(x, y). if 0 \<le> x \<and> x < W \<and> 0 \<le> y \<and> y < H
        then Some k1 else None), im_drawn = []\<rparr>"
  have n: "Image_new (W, H) color1 h = Inr (length h, h @ [?im0])"
    using assms by (simp add: Image_new_def INT_MAX_def)
  have l: "for_loop (py_range W)
      (\<lambda>x. for_loop (py_range H) (\<lambda>y. gradient_body W H color1 color2 (length h) x y))
      (h @ [?im0]) =
    Inr ((h @ [?im0])[length h := painted (binary64_pixel W H k1 k2) ({0..W - 1} \<times> {0..H - 1})
      ((h @ [?im0]) ! length h)])"
    using c1 c2 by (rule gradient_loops_eq) simp_all
  have p: "painted (binary64_pixel W H k1 k2) ({0..W - 1} \<times> {0..H - 1}) ?im0 =
      gradient_image W H k1 k2"
    by (auto simp add: painted_def gradient_image_def fun_eq_iff)
  show ?thesis
    unfolding create_gradient_background_def n by (simp add: ebind_def l p del: for_loop.simps)
qed

section \<open>The claims about the gradient\<close>

lemma far_corner_ratio: "fl (1828 / 1830) < 1"
  by code_simp

text \<open>
  C3. On the 1200 by 630 canvas the ratio of line 31 is computed without an exception at
  every pixel, and it lies in the half-open unit interval: it is at least 0 and stays
  strictly below 1, also at the far corner (1199, 629).
\<close>

theorem gradient_ratio_below_one:
  assumes "0 \<le> x" and "x < WIDTH" and "0 \<le> y" and "y < HEIGHT"
  shows "\<exists>r. gradient_ratio WIDTH HEIGHT x y = Inr r \<and> 0 \<le> r \<and> r < 1"
proof -
  define a where "a = x + y"
  have a: "0 \<le> a" "a \<le> 1828" using assms by (simp_all add: a_def WIDTH_def HEIGHT_def)
  have r: "truediv a 1830 = Inr (fl (of_int a / of_int 1830))"
    using a by (intro truediv_unit) simp_all
  have "(of_int a :: rat) / of_int 1830 \<le> 1828 / 1830" using a(2) by simp
  then have "fl (of_int a / of_int 1830) \<le> fl (1828 / 1830)" by (rule fl_mono)
  then have lt: "fl (of_int a / of_int 1830) < 1" using far_corner_ratio by simp
  have ge: "0 \<le> fl (of_int a / of_int 1830)" using a(1) by (intro fl_nonneg) simp
  have "gradient_ratio WIDTH HEIGHT x y = truediv a 1830"
    by (simp add: gradient_ratio_def a_def WIDTH_def HEIGHT_def)
  then show ?thesis using r lt ge by simp
qed

theorem gradient_ratio_below_one_witness:
  "(0::int) \<le> 1199 \<and> 1199 < WIDTH \<and> (0::int) \<le> 629 \<and> 629 < HEIGHT \<and>
   (\<exists>r. gradient_ratio WIDTH HEIGHT 1199 629 = Inr r \<and> 0 \<le> r \<and> r < 1)"
  using gradient_ratio_below_one [of 1199 629] by (simp add: WIDTH_def HEIGHT_def)

lemma returned_gradient:
  assumes "getrgb color1 = Inr k1" and "getrgb color2 = Inr k2" and "0 \<le> W" and "0 \<le> H"
    and "W \<le> INT_MAX div 4 - 1" and "H \<le> INT_MAX"
  shows "returned (create_gradient_background W H color1 color2 h) =
    Some (gradient_image W H k1 k2)"
  by (simp add: create_gradient_background_eq [OF assms] returned_def)

lemma pixel_at_gradient:
  assumes "getrgb color1 = Inr k1" and "getrgb color2 = Inr k2"
    and "W \<le> INT_MAX div 4 - 1" and "H \<le> INT_MAX"
    and "0 \<le> x" "x < W" "0 \<le> y" "y < H"
  shows "pixel_at (create_gradient_background W H color1 color2 h) (x, y) =
    Some (binary64_pixel W H k1 k2 (x, y))"
proof -
  have "0 \<le> W" "0 \<le> H" using assms by simp_all
  from returned_gradient [OF assms(1,2) this assms(3,4)] show ?thesis
    using assms(5-8) by (simp add: pixel_at_def gradient_image_def)
qed

lemma getrgb_DARK_BG: "getrgb DARK_BG = Inr (15, 15, 35)"
  by (simp add: getrgb_def DARK_BG_def hex_digit_def)

lemma getrgb_ACCENT_CYAN: "getrgb ACCENT_CYAN = Inr (6, 182, 212)"
  by (simp add: getrgb_def ACCENT_CYAN_def hex_digit_def)

lemma getrgb_ACCENT_PURPLE: "getrgb ACCENT_PURPLE = Inr (139, 92, 246)"
  by (simp add: getrgb_def ACCENT_PURPLE_def hex_digit_def)

lemma canvas_fits: "WIDTH \<le> INT_MAX div 4 - 1" "HEIGHT \<le> INT_MAX"
  by (simp_all add: WIDTH_def HEIGHT_def INT_MAX_def)

lemma og_ratio_6_0: "binary64_ratio 1200 630 6 0 = 3780070506907695 / 1152921504606846976"
  unfolding binary64_ratio_def by code_simp

lemma og_red_product:
  "fl (of_int (6 - 15) * (3780070506907695 / 1152921504606846976)) =
     - (4252579320271157 / 144115188075855872)"
  by code_simp

lemma og_red_sum:
  "fl (of_int 15 + - (4252579320271157 / 144115188075855872)) =
     8427637663349871 / 562949953421312"
  by code_simp

lemma og_red_6_0: "binary64_channel 15 6 (binary64_ratio 1200 630 6 0) = 14"
  unfolding binary64_channel_def og_ratio_6_0 og_red_product og_red_sum by code_simp

lemma og_green_product:
  "fl (of_int (182 - 15) * (3780070506907695 / 1152921504606846976)) =
     4931810739481133 / 9007199254740992"
  by code_simp

lemma og_green_sum:
  "fl (of_int 15 + 4931810739481133 / 9007199254740992) = 8752487472537251 / 562949953421312"
  by code_simp

lemma og_green_6_0: "binary64_channel 15 182 (binary64_ratio 1200 630 6 0) = 15"
  unfolding binary64_channel_def og_ratio_6_0 og_green_product og_green_sum by code_simp

lemma og_blue_product:
  "fl (of_int (212 - 35) * (3780070506907695 / 1152921504606846976)) =
     5227128747833297 / 9007199254740992"
  by code_simp

lemma og_blue_sum:
  "fl (of_int 35 + 5227128747833297 / 9007199254740992) = 5007485979121375 / 140737488355328"
  by code_simp

lemma og_blue_6_0: "binary64_channel 35 212 (binary64_ratio 1200 630 6 0) = 35"
  unfolding binary64_channel_def og_ratio_6_0 og_blue_product og_blue_sum by code_simp

lemma og_pixel_6_0: "binary64_pixel 1200 630 (15, 15, 35) (6, 182, 212) (6, 0) = (14, 15, 35)"
  by (simp add: binary64_pixel_def Let_def og_red_6_0 og_green_6_0 og_blue_6_0)

lemma og_rounded_6_0:
  "(spec_rounded_channel 15 6 1200 630 6 0, spec_rounded_channel 15 182 1200 630 6 0,
    spec_rounded_channel 35 212 1200 630 6 0) = (15, 16, 36)"
  by code_simp













text \<open>
  C2 as stated fails: the script truncates where the claim rounds. On the Open Graph
  gradient the pixel (6, 0) is (14, 15, 35), and rounding would give (15, 16, 36).
\<close>

theorem gradient_rounding_counterexample:
  "pixel_at (create_gradient_background WIDTH HEIGHT DARK_BG ACCENT_CYAN []) (6, 0) =
     Some (14, 15, 35) \<and>
   (spec_rounded_channel 15 6 WIDTH HEIGHT 6 0, spec_rounded_channel 15 182 WIDTH HEIGHT 6 0,
    spec_rounded_channel 35 212 WIDTH HEIGHT 6 0) = (15, 16, 36)"
proof -
  have "pixel_at (create_gradient_background WIDTH HEIGHT DARK_BG ACCENT_CYAN []) (6, 0) =
      Some (binary64_pixel WIDTH HEIGHT (15, 15, 35) (6, 182, 212) (6, 0))"
    using getrgb_DARK_BG getrgb_ACCENT_CYAN canvas_fits
    by (rule pixel_at_gradient) (simp_all add: WIDTH_def HEIGHT_def)
  then show ?thesis
    using og_pixel_6_0 og_rounded_6_0 by (simp add: WIDTH_def HEIGHT_def)
qed

lemma binary64_ratio_origin: "binary64_ratio W H 0 0 = 0"
  by (simp add: binary64_ratio_def)

text \<open>
  C2, amended. On a canvas of a size the library accepts, at every pixel inside the
  canvas each channel is the truncation (not the rounding) of
  \<open>c1 + (c2 - c1) * (x + y) / (W + H)\<close>, computed in binary64; this value lies in the
  byte range from 0 to 255, so that clamping it changes nothing; and the pixel (0, 0)
  has exactly the first colour.
\<close>

theorem gradient_pixel_truncates:
  assumes "getrgb color1 = Inr (r1, g1, b1)" and "getrgb color2 = Inr (r2, g2, b2)"
    and "W \<le> INT_MAX div 4 - 1" and "H \<le> INT_MAX"
    and "0 \<le> x" and "x < W" and "0 \<le> y" and "y < H"
  shows "pixel_at (create_gradient_background W H color1 color2 h) (x, y) =
      Some (binary64_channel r1 r2 (binary64_ratio W H x y),
            binary64_channel g1 g2 (binary64_ratio W H x y),
            binary64_channel b1 b2 (binary64_ratio W H x y)) \<and>
    0 \<le> binary64_channel r1 r2 (binary64_ratio W H x y) \<and>
    binary64_channel r1 r2 (binary64_ratio W H x y) \<le> 255 \<and>
    0 \<le> binary64_channel g1 g2 (binary64_ratio W H x y) \<and>
    binary64_channel g1 g2 (binary64_ratio W H x y) \<le> 255 \<and>
    0 \<le> binary64_channel b1 b2 (binary64_ratio W H x y) \<and>
    binary64_channel b1 b2 (binary64_ratio W H x y) \<le> 255 \<and>
    clip8 (binary64_channel r1 r2 (binary64_ratio W H x y)) =
      binary64_channel r1 r2 (binary64_ratio W H x y) \<and>
    clip8 (binary64_channel g1 g2 (binary64_ratio W H x y)) =
      binary64_channel g1 g2 (binary64_ratio W H x y) \<and>
    clip8 (binary64_channel b1 b2 (binary64_ratio W H x y)) =
      binary64_channel b1 b2 (binary64_ratio W H x y) \<and>
    pixel_at (create_gradient_background W H color1 color2 h) (0, 0) = Some (r1, g1, b1)"
proof -
  note p1 = getrgb_channels [OF assms(1)]
  note p2 = getrgb_channels [OF assms(2)]
  note xy = assms(5-8)
  note rr = binary64_pixel_range [OF xy p1(4) p2(4)]
  note rg = binary64_pixel_range [OF xy p1(5) p2(5)]
  note rb = binary64_pixel_range [OF xy p1(6) p2(6)]
  have c: "clip8 (binary64_channel r1 r2 (binary64_ratio W H x y)) =
      binary64_channel r1 r2 (binary64_ratio W H x y)"
    "clip8 (binary64_channel g1 g2 (binary64_ratio W H x y)) =
      binary64_channel g1 g2 (binary64_ratio W H x y)"
    "clip8 (binary64_channel b1 b2 (binary64_ratio W H x y)) =
      binary64_channel b1 b2 (binary64_ratio W H x y)"
    using rr rg rb by (simp_all add: clip8_id)
  have a: "pixel_at (create_gradient_background W H color1 color2 h) (x, y) =
      Some (binary64_channel r1 r2 (binary64_ratio W H x y),
            binary64_channel g1 g2 (binary64_ratio W H x y),
            binary64_channel b1 b2 (binary64_ratio W H x y))"
    using pixel_at_gradient [OF assms, of h] by (simp add: binary64_pixel_def Let_def)
  have "0 < W" "0 < H" using xy by simp_all
  then have "pixel_at (create_gradient_background W H color1 color2 h) (0, 0) =
      Some (binary64_pixel W H (r1, g1, b1) (r2, g2, b2) (0, 0))"
    using assms(1-4) by (intro pixel_at_gradient) simp_all
  moreover have "binary64_pixel W H (r1, g1, b1) (r2, g2, b2) (0, 0) = (r1, g1, b1)"
    using p1(4-6) by (simp add: binary64_pixel_def binary64_ratio_origin binary64_channel_0)
  ultimately have o: "pixel_at (create_gradient_background W H color1 color2 h) (0, 0) =
      Some (r1, g1, b1)" by simp
  show ?thesis
    using a rr rg rb c o by (intro conjI) simp_all
qed

theorem gradient_pixel_truncates_witness:
  "getrgb DARK_BG = Inr (15, 15, 35) \<and> getrgb ACCENT_CYAN = Inr (6, 182, 212) \<and>
   WIDTH \<le> INT_MAX div 4 - 1 \<and> HEIGHT \<le> INT_MAX \<and>
   (0::int) \<le> 6 \<and> 6 < WIDTH \<and> (0::int) \<le> 0 \<and> 0 < HEIGHT \<and>
   pixel_at (create_gradient_background WIDTH HEIGHT DARK_BG ACCENT_CYAN []) (6, 0) =
      Some (14, 15, 35) \<and>
   clip8 14 = 14 \<and> clip8 15 = 15 \<and> clip8 35 = 35 \<and>
   pixel_at (create_gradient_background WIDTH HEIGHT DARK_BG ACCENT_CYAN []) (0, 0) =
      Some (15, 15, 35)"
proof -
  have w: "(0::int) \<le> 6" "6 < WIDTH" "(0::int) \<le> 0" "0 < HEIGHT"
    by (simp_all add: WIDTH_def HEIGHT_def)
  note inst = gradient_pixel_truncates
    [OF getrgb_DARK_BG getrgb_ACCENT_CYAN canvas_fits w, of "[]"]
  have v: "binary64_channel 15 6 (binary64_ratio WIDTH HEIGHT 6 0) = 14"
    "binary64_channel 15 182 (binary64_ratio WIDTH HEIGHT 6 0) = 15"
    "binary64_channel 35 212 (binary64_ratio WIDTH HEIGHT 6 0) = 35"
    using og_red_6_0 og_green_6_0 og_blue_6_0 by (simp_all add: WIDTH_def HEIGHT_def)
  show ?thesis
    using inst w canvas_fits getrgb_DARK_BG getrgb_ACCENT_CYAN unfolding v by blast
qed

lemma largest_below_one: "fl ((2 ^ 53 - 1) / 2 ^ 53) = (2 ^ 53 - 1) / 2 ^ 53"
  using fl_exact [of "2 ^ 53 - 1" 53] by simp

lemma binary64_ratio_strict:
  assumes "0 \<le> x" "x < W" "0 \<le> y" "y < H" and "W + H \<le> 2 ^ 53"
  shows "binary64_ratio W H x y < 1"
proof -
  define n where "n = W + H"
  define k where "k = x + y"
  have k: "k + 1 \<le> n" "0 < n" using assms by (simp_all add: n_def k_def)
  have "(of_int (k + 1) :: rat) \<le> of_int n" using k(1) by (simp only: of_int_le_iff)
  then have "(of_int k :: rat) \<le> of_int n - 1" by simp
  then have "(of_int k :: rat) / of_int n \<le> (of_int n - 1) / of_int n"
    using k(2) by (simp add: divide_right_mono)
  also have "\<dots> = 1 - 1 / of_int n" using k(2) by (simp add: field_simps)
  also have "\<dots> \<le> 1 - 1 / 2 ^ 53"
  proof -
    have "(of_int n :: rat) \<le> of_int (2 ^ 53)" using assms(5) unfolding n_def
      by (simp only: of_int_le_iff)
    then have "(1::rat) / 2 ^ 53 \<le> 1 / of_int n" using k(2) by (simp add: frac_le)
    then show ?thesis by simp
  qed
  also have "\<dots> = (2 ^ 53 - 1) / 2 ^ 53" by simp
  finally have "fl (of_int k / of_int n) \<le> fl ((2 ^ 53 - 1) / 2 ^ 53)" by (rule fl_mono)
  then have "fl (of_int k / of_int n) < 1" unfolding largest_below_one by simp
  then show ?thesis by (simp add: binary64_ratio_def n_def k_def)
qed

lemma binary64_ratio_below_one:
  assumes "0 \<le> x" "x < W" "0 \<le> y" "y < H" and "W \<le> INT_MAX div 4 - 1" and "H \<le> INT_MAX"
  shows "binary64_ratio W H x y < 1"
proof -
  have "W + H \<le> 2 ^ 53" using assms(5,6) by (simp add: INT_MAX_def)
  with assms(1-4) show ?thesis by (rule binary64_ratio_strict)
qed

text \<open>
  C9. For two colours written \<open>#rrggbb\<close> and a pixel inside a canvas of a size the
  library accepts, the ratio of line 31 lies in the half-open interval from 0 to 1, each
  of the three values of lines 35 to 37 is computed without an exception and lies
  between the two channels it interpolates, hence in the byte range: the library's
  clamp changes nothing and the pixel stored is the one written.
\<close>

theorem gradient_channels_in_range:
  assumes "getrgb color1 = Inr (r1, g1, b1)" and "getrgb color2 = Inr (r2, g2, b2)"
    and "W \<le> INT_MAX div 4 - 1" and "H \<le> INT_MAX"
    and "0 \<le> x" and "x < W" and "0 \<le> y" and "y < H"
  shows "\<exists>q r g b.
    gradient_ratio W H x y = Inr q \<and> 0 \<le> q \<and> q < 1 \<and>
    interpolate r1 r2 q = Inr r \<and> interpolate g1 g2 q = Inr g \<and> interpolate b1 b2 q = Inr b \<and>
    min r1 r2 \<le> r \<and> r \<le> max r1 r2 \<and> min g1 g2 \<le> g \<and> g \<le> max g1 g2 \<and>
    min b1 b2 \<le> b \<and> b \<le> max b1 b2 \<and>
    0 \<le> r \<and> r \<le> 255 \<and> 0 \<le> g \<and> g \<le> 255 \<and> 0 \<le> b \<and> b \<le> 255 \<and>
    clip8 r = r \<and> clip8 g = g \<and> clip8 b = b \<and>
    pixel_at (create_gradient_background W H color1 color2 h) (x, y) = Some (r, g, b)"
proof -
  note p1 = getrgb_channels [OF assms(1)]
  note p2 = getrgb_channels [OF assms(2)]
  note xy = assms(5-8)
  let ?q = "binary64_ratio W H x y"
  note u = binary64_ratio_unit [OF xy]
  have a: "\<bar>r1\<bar> \<le> 255" "\<bar>r2\<bar> \<le> 255" "\<bar>g1\<bar> \<le> 255" "\<bar>g2\<bar> \<le> 255" "\<bar>b1\<bar> \<le> 255" "\<bar>b2\<bar> \<le> 255"
    using p1(4-6) p2(4-6) by simp_all
  have q: "gradient_ratio W H x y = Inr ?q" using xy by (rule gradient_ratio_eq)
  have s: "?q < 1" using xy assms(3,4) by (rule binary64_ratio_below_one)
  have i: "interpolate r1 r2 ?q = Inr (binary64_channel r1 r2 ?q)"
    "interpolate g1 g2 ?q = Inr (binary64_channel g1 g2 ?q)"
    "interpolate b1 b2 ?q = Inr (binary64_channel b1 b2 ?q)"
    using a by (simp_all add: interpolate_eq)
  note br = binary64_channel_between [OF u a(1,2)]
  note bg = binary64_channel_between [OF u a(3,4)]
  note bb = binary64_channel_between [OF u a(5,6)]
  note rr = binary64_pixel_range [OF xy p1(4) p2(4)]
  note rg = binary64_pixel_range [OF xy p1(5) p2(5)]
  note rb = binary64_pixel_range [OF xy p1(6) p2(6)]
  have c: "clip8 (binary64_channel r1 r2 ?q) = binary64_channel r1 r2 ?q"
    "clip8 (binary64_channel g1 g2 ?q) = binary64_channel g1 g2 ?q"
    "clip8 (binary64_channel b1 b2 ?q) = binary64_channel b1 b2 ?q"
    using rr rg rb by (simp_all add: clip8_id)
  have p: "pixel_at (create_gradient_background W H color1 color2 h) (x, y) =
      Some (binary64_channel r1 r2 ?q, binary64_channel g1 g2 ?q, binary64_channel b1 b2 ?q)"
    using pixel_at_gradient [OF assms, of h] by (simp add: binary64_pixel_def Let_def)
  show ?thesis
    using q u(1) s i br bg bb rr rg rb c p by blast
qed

theorem gradient_channels_in_range_witness:
  "getrgb DARK_BG = Inr (15, 15, 35) \<and> getrgb ACCENT_CYAN = Inr (6, 182, 212) \<and>
   WIDTH \<le> INT_MAX div 4 - 1 \<and> HEIGHT \<le> INT_MAX \<and>
   (0::int) \<le> 6 \<and> 6 < WIDTH \<and> (0::int) \<le> 0 \<and> 0 < HEIGHT \<and>
   (\<exists>q r g b.
     gradient_ratio WIDTH HEIGHT 6 0 = Inr q \<and> 0 \<le> q \<and> q < 1 \<and>
     interpolate 15 6 q = Inr r \<and> interpolate 15 182 q = Inr g \<and> interpolate 35 212 q = Inr b \<and>
     6 \<le> r \<and> r \<le> 15 \<and> 15 \<le> g \<and> g \<le> 182 \<and> 35 \<le> b \<and> b \<le> 212 \<and>
     clip8 r = r \<and> clip8 g = g \<and> clip8 b = b \<and>
     pixel_at (create_gradient_background WIDTH HEIGHT DARK_BG ACCENT_CYAN []) (6, 0) =
       Some (r, g, b))"
proof -
  have w: "(0::int) \<le> 6" "6 < WIDTH" "(0::int) \<le> 0" "0 < HEIGHT"
    by (simp_all add: WIDTH_def HEIGHT_def)
  from gradient_channels_in_range [OF getrgb_DARK_BG getrgb_ACCENT_CYAN canvas_fits w, of "[]"]
  obtain q r g b where f:
    "gradient_ratio WIDTH HEIGHT 6 0 = Inr q" "0 \<le> q" "q < 1"
    "interpolate 15 6 q = Inr r" "interpolate 15 182 q = Inr g" "interpolate 35 212 q = Inr b"
    "min 15 6 \<le> r" "r \<le> max 15 6" "min 15 182 \<le> g" "g \<le> max 15 182"
    "min 35 212 \<le> b" "b \<le> max 35 212"
    "clip8 r = r" "clip8 g = g" "clip8 b = b"
    "pixel_at (create_gradient_background WIDTH HEIGHT DARK_BG ACCENT_CYAN []) (6, 0) =
       Some (r, g, b)"
    by blast
  have m: "6 \<le> r" "r \<le> 15" "15 \<le> g" "g \<le> 182" "35 \<le> b" "b \<le> 212"
    using f(7-12) by simp_all
  show ?thesis
    using w canvas_fits getrgb_DARK_BG getrgb_ACCENT_CYAN f(1-6,13-16) m by blast
qed

text \<open>
  C10. On a canvas of a size the library accepts, each channel is monotone along the
  diagonal coordinate \<open>x + y\<close>: between two pixels of the canvas with
  \<open>x + y \<le> x' + y'\<close> it does not decrease when the second colour's channel is at
  least the first's, and does not increase when it is at most the first's.
\<close>

theorem gradient_monotone_on_diagonal:
  assumes "getrgb color1 = Inr (r1, g1, b1)" and "getrgb color2 = Inr (r2, g2, b2)"
    and "W \<le> INT_MAX div 4 - 1" and "H \<le> INT_MAX"
    and "0 \<le> x" and "x < W" and "0 \<le> y" and "y < H"
    and "0 \<le> x'" and "x' < W" and "0 \<le> y'" and "y' < H"
    and "x + y \<le> x' + y'"
  shows "\<exists>r g b r' g' b'.
    pixel_at (create_gradient_background W H color1 color2 h) (x, y) = Some (r, g, b) \<and>
    pixel_at (create_gradient_background W H color1 color2 h) (x', y') = Some (r', g', b') \<and>
    (r1 \<le> r2 \<longrightarrow> r \<le> r') \<and> (r2 \<le> r1 \<longrightarrow> r' \<le> r) \<and>
    (g1 \<le> g2 \<longrightarrow> g \<le> g') \<and> (g2 \<le> g1 \<longrightarrow> g' \<le> g) \<and>
    (b1 \<le> b2 \<longrightarrow> b \<le> b') \<and> (b2 \<le> b1 \<longrightarrow> b' \<le> b)"
proof -
  let ?q = "binary64_ratio W H x y" and ?q' = "binary64_ratio W H x' y'"
  have "0 < W + H" using assms(5-8) by simp
  with assms(13) have m: "?q \<le> ?q'" by (rule binary64_ratio_mono)
  have p: "pixel_at (create_gradient_background W H color1 color2 h) (x, y) =
      Some (binary64_channel r1 r2 ?q, binary64_channel g1 g2 ?q, binary64_channel b1 b2 ?q)"
    using pixel_at_gradient [OF assms(1-8), of h] by (simp add: binary64_pixel_def Let_def)
  have p': "pixel_at (create_gradient_background W H color1 color2 h) (x', y') =
      Some (binary64_channel r1 r2 ?q', binary64_channel g1 g2 ?q', binary64_channel b1 b2 ?q')"
    using pixel_at_gradient [OF assms(1-4,9-12), of h] by (simp add: binary64_pixel_def Let_def)
  show ?thesis
    using p p' binary64_channel_mono [OF m] by blast
qed

theorem gradient_monotone_on_diagonal_witness:
  "getrgb DARK_BG = Inr (15, 15, 35) \<and> getrgb ACCENT_CYAN = Inr (6, 182, 212) \<and>
   WIDTH \<le> INT_MAX div 4 - 1 \<and> HEIGHT \<le> INT_MAX \<and>
   (0::int) \<le> 6 \<and> 6 < WIDTH \<and> (0::int) \<le> 0 \<and> 0 < HEIGHT \<and>
   (0::int) \<le> 7 \<and> 7 < WIDTH \<and> (0::int) \<le> 0 \<and> 0 < HEIGHT \<and> (6::int) + 0 \<le> 7 + 0 \<and>
   (\<exists>r g b r' g' b'.
     pixel_at (create_gradient_background WIDTH HEIGHT DARK_BG ACCENT_CYAN []) (6, 0) =
       Some (r, g, b) \<and>
     pixel_at (create_gradient_background WIDTH HEIGHT DARK_BG ACCENT_CYAN []) (7, 0) =
       Some (r', g', b') \<and>
     r' \<le> r \<and> g \<le> g' \<and> b \<le> b')"
proof -
  have w: "(0::int) \<le> 6" "6 < WIDTH" "(0::int) \<le> 0" "0 < HEIGHT"
    and w': "(0::int) \<le> 7" "7 < WIDTH" "(0::int) \<le> 0" "0 < HEIGHT"
    and d: "(6::int) + 0 \<le> 7 + 0"
    by (simp_all add: WIDTH_def HEIGHT_def)
  from gradient_monotone_on_diagonal
    [OF getrgb_DARK_BG getrgb_ACCENT_CYAN canvas_fits w w' d, of "[]"]
  obtain r g b r' g' b' where f:
    "pixel_at (create_gradient_background WIDTH HEIGHT DARK_BG ACCENT_CYAN []) (6, 0) =
       Some (r, g, b)"
    "pixel_at (create_gradient_background WIDTH HEIGHT DARK_BG ACCENT_CYAN []) (7, 0) =
       Some (r', g', b')"
    "(6::int) \<le> 15 \<longrightarrow> r' \<le> r" "(15::int) \<le> 182 \<longrightarrow> g \<le> g'" "(35::int) \<le> 212 \<longrightarrow> b \<le> b'"
    by blast
  have m: "r' \<le> r" "g \<le> g'" "b \<le> b'" using f(3-5) by simp_all
  show ?thesis
    using w w' d canvas_fits getrgb_DARK_BG getrgb_ACCENT_CYAN f(1,2) m by blast
qed

section \<open>The object store\<close>

lemma heap_update_frame:
  "heap_update (length h) f (h @ [im]) = map_sum id (\<lambda>im'. h @ [im']) (f im)"
  by (cases "f im") (simp_all add: heap_update_def)

lemma ebind_map_sum: "ebind m (\<lambda>v. map_sum id g (k v)) = map_sum id g (ebind m k)"
  by (cases m) (simp_all add: ebind_def)

lemma gradient_body_frame:
  "\<exists>res. \<forall>h. gradient_body W H color1 color2 (length h) x y (h @ [im]) =
     map_sum id (\<lambda>im'. h @ [im']) res"
  unfolding gradient_body_def pixels_setitem_def heap_update_frame ebind_map_sum
  by (rule exI) (rule allI, rule refl)

lemma for_loop_frame:
  assumes "\<And>i im. \<exists>res. \<forall>h::heap. body (length h) i (h @ [im]) =
      map_sum id (\<lambda>im'. h @ [im']) res"
  shows "\<exists>res. \<forall>h::heap. for_loop js (body (length h)) (h @ [im]) =
      map_sum id (\<lambda>im'. h @ [im']) res"
proof (induction js arbitrary: im)
  case Nil
  have "\<forall>h::heap. for_loop [] (body (length h)) (h @ [im]) =
      map_sum id (\<lambda>im'. h @ [im']) (Inr im)" by simp
  then show ?case by (rule exI)
next
  case (Cons j js)
  from assms obtain r where r: "\<And>h::heap. body (length h) j (h @ [im]) =
      map_sum id (\<lambda>im'. h @ [im']) r" by blast
  show ?case
  proof (cases r)
    case (Inl e)
    have "\<forall>h::heap. for_loop (j # js) (body (length h)) (h @ [im]) =
        map_sum id (\<lambda>im'. h @ [im']) (Inl e)" by (simp add: r Inl)
    then show ?thesis by (rule exI)
  next
    case (Inr im1)
    from Cons.IH [of im1] obtain r' where r': "\<And>h::heap.
        for_loop js (body (length h)) (h @ [im1]) = map_sum id (\<lambda>im'. h @ [im']) r'" by blast
    have "\<forall>h::heap. for_loop (j # js) (body (length h)) (h @ [im]) =
        map_sum id (\<lambda>im'. h @ [im']) r'" by (simp add: r Inr r')
    then show ?thesis by (rule exI)
  qed
qed

lemma gradient_loops_frame:
  "\<exists>res. \<forall>h. for_loop (py_range W)
       (\<lambda>x. for_loop (py_range H) (\<lambda>y. gradient_body W H color1 color2 (length h) x y))
       (h @ [im]) = map_sum id (\<lambda>im'. h @ [im']) res"
proof -
  have inner: "\<exists>res. \<forall>h. for_loop (py_range H)
      (\<lambda>y. gradient_body W H color1 color2 (length h) x y) (h @ [im']) =
      map_sum id (\<lambda>im''. h @ [im'']) res" for x im'
    by (rule for_loop_frame [where body = "\<lambda>a y. gradient_body W H color1 color2 a x y"])
      (rule gradient_body_frame)
  show ?thesis
    by (rule for_loop_frame [where body = "\<lambda>a x. for_loop (py_range H)
        (\<lambda>y. gradient_body W H color1 color2 a x y)"]) (rule inner)
qed

lemma create_gradient_background_frame:
  "\<exists>res. \<forall>h. create_gradient_background W H color1 color2 h =
     map_sum id (\<lambda>im. (length h, h @ [im])) res"
proof (cases "Image_new (W, H) color1 []")
  case (Inl e)
  then have "\<forall>h. create_gradient_background W H color1 color2 h =
      map_sum id (\<lambda>im. (length h, h @ [im])) (Inl e)"
    by (auto simp add: create_gradient_background_def Image_new_def ebind_def
        split: if_splits sum.splits)
  then show ?thesis by (rule exI)
next
  case (Inr p)
  then obtain im0 where n: "\<And>h. Image_new (W, H) color1 h = Inr (length h, h @ [im0])"
    by (auto simp add: Image_new_def split: if_splits sum.splits)
  from gradient_loops_frame [of W H color1 color2 im0] obtain r where r: "\<And>h.
      for_loop (py_range W)
        (\<lambda>x. for_loop (py_range H) (\<lambda>y. gradient_body W H color1 color2 (length h) x y))
        (h @ [im0]) = map_sum id (\<lambda>im'. h @ [im']) r" by blast
  have "\<forall>h. create_gradient_background W H color1 color2 h =
      map_sum id (\<lambda>im. (length h, h @ [im])) r"
    by (cases r) (simp_all add: create_gradient_background_def n r ebind_def del: for_loop.simps)
  then show ?thesis by (rule exI)
qed

section \<open>The two cards\<close>

lemma text_width_bounds: "- (2 ^ 32) < text_width E f s" "text_width E f s < 2 ^ 32"
proof -
  obtain l t r b where bb: "text_bbox E f s = (l, t, r, b)" by (cases "text_bbox E f s") auto
  have "- (2 ^ 31) \<le> sint l" "sint l < 2 ^ 31" "- (2 ^ 31) \<le> sint r" "sint r < 2 ^ 31"
    using sint_ge [of l] sint_lt [of l] sint_ge [of r] sint_lt [of r] by simp_all
  then show "- (2 ^ 32) < text_width E f s" "text_width E f s < 2 ^ 32"
    by (simp_all add: text_width_def textbbox_def bb)
qed

lemma truediv_centered:
  "truediv (WIDTH - text_width E f s) 2 = Inr (centered E f s)"
proof -
  define n where "n = WIDTH - text_width E f s"
  have n: "\<bar>n\<bar> < 2 ^ 53"
    using text_width_bounds [of E f s] by (simp add: n_def WIDTH_def)
  have e: "fl (of_int n / 2) = of_int n / 2"
    using fl_exact [of n 1] n by simp
  have "(of_int \<bar>n\<bar> :: rat) < of_int (2 ^ 53)" using n by (simp only: of_int_less_iff)
  then have "\<bar>of_int n :: rat\<bar> < 2 ^ 53" by simp
  then have "\<bar>of_int n / 2 :: rat\<bar> < 2 ^ 53" by simp
  also have "(2::rat) ^ 53 < 2 ^ 1024" by simp
  finally have b: "\<not> (2::rat) ^ 1024 \<le> \<bar>of_int n / 2\<bar>" by (simp only: not_le)
  have "truediv n 2 = Inr (of_int n / 2)"
    unfolding truediv_def Let_def of_int_numeral e using b by (simp only: if_False) simp
  then show ?thesis by (simp add: n_def centered_def)
qed

lemma draw_frame:
  "draw (length h) op (h @ [im]) = Inr (h @ [im\<lparr>im_drawn := im_drawn im @ [op]\<rparr>])"
  by (simp add: draw_def heap_update_frame)

lemma draw_centered_frame:
  "draw_centered E (length h) s f y fill (h @ [im]) =
     Inr (h @ [im\<lparr>im_drawn := im_drawn im @ [Text (centered E f s, y) s fill f]\<rparr>])"
  by (simp add: draw_centered_def truediv_centered ebind_def draw_frame)

lemma create_og_image_eq: "create_og_image E h = Inr (length h, h @ [og_image E])"
proof -
  have g: "create_gradient_background WIDTH HEIGHT DARK_BG ACCENT_CYAN h =
      Inr (length h, h @ [gradient_image WIDTH HEIGHT (15, 15, 35) (6, 182, 212)])"
    using getrgb_DARK_BG getrgb_ACCENT_CYAN
    by (rule create_gradient_background_eq) (simp_all add: WIDTH_def HEIGHT_def INT_MAX_def)
  obtain tf sf gf where f: "load_fonts E (dejavu_bold, 90) (dejavu, 48) (dejavu, 36) = (tf, sf, gf)"
    by (cases "load_fonts E (dejavu_bold, 90) (dejavu, 48) (dejavu, 36)") auto
  show ?thesis
    unfolding create_og_image_def g
    by (simp add: ebind_def f draw_frame draw_centered_frame og_image_def gradient_image_def
        WIDTH_def HEIGHT_def)
qed

lemma create_twitter_image_eq:
  "create_twitter_image E h = Inr (length h, h @ [twitter_image E])"
proof -
  have g: "create_gradient_background WIDTH HEIGHT DARK_BG ACCENT_PURPLE h =
      Inr (length h, h @ [gradient_image WIDTH HEIGHT (15, 15, 35) (139, 92, 246)])"
    using getrgb_DARK_BG getrgb_ACCENT_PURPLE
    by (rule create_gradient_background_eq) (simp_all add: WIDTH_def HEIGHT_def INT_MAX_def)
  obtain tf sf gf where f: "load_fonts E (dejavu_bold, 85) (dejavu, 42) (dejavu, 32) = (tf, sf, gf)"
    by (cases "load_fonts E (dejavu_bold, 85) (dejavu, 42) (dejavu, 32)") auto
  show ?thesis
    unfolding create_twitter_image_def g
    by (simp add: ebind_def f draw_frame draw_centered_frame twitter_image_def gradient_image_def)
qed

lemma returned_og: "returned (create_og_image E h) = Some (og_image E)"
  by (simp add: create_og_image_eq returned_def)

lemma returned_twitter: "returned (create_twitter_image E h) = Some (twitter_image E)"
  by (simp add: create_twitter_image_eq returned_def)

lemma drawn_texts_og:
  "drawn_texts (create_og_image E h) =
     (case load_fonts E (dejavu_bold, 90) (dejavu, 48) (dejavu, 36) of
        (tf, sf, gf) \<Rightarrow>
          [(centered E tf ''JustLayMe'', ''JustLayMe'', tf),
           (centered E sf ''Unfiltered AI Conversations'', ''Unfiltered AI Conversations'', sf),
           (centered E gf ''Chat Without Restrictions'', ''Chat Without Restrictions'', gf)])"
  by (simp add: drawn_texts_def returned_og og_image_def split: prod.splits)

lemma drawn_texts_twitter:
  "drawn_texts (create_twitter_image E h) =
     (case load_fonts E (dejavu_bold, 85) (dejavu, 42) (dejavu, 32) of
        (tf, sf, gf) \<Rightarrow>
          [(centered E tf ''JustLayMe'', ''JustLayMe'', tf),
           (centered E sf ''Unfiltered AI Conversations'', ''Unfiltered AI Conversations'', sf),
           (centered E gf ''Chat Without Restrictions'', ''Chat Without Restrictions'', gf)])"
  by (simp add: drawn_texts_def returned_twitter twitter_image_def split: prod.splits)

lemma centered_fits:
  "centered E f s + of_int (text_width E f s) \<le> of_int WIDTH \<longleftrightarrow> text_width E f s \<le> WIDTH"
proof -
  have "centered E f s + of_int (text_width E f s) =
      (of_int WIDTH + of_int (text_width E f s)) / 2"
    by (simp add: centered_def field_simps)
  moreover have "(of_int WIDTH + of_int (text_width E f s)) / 2 \<le> (of_int WIDTH :: rat) \<longleftrightarrow>
      (of_int (text_width E f s) :: rat) \<le> of_int WIDTH"
    by (simp add: field_simps)
  ultimately show ?thesis by (simp only: of_int_le_iff)
qed

text \<open>
  C8. create_gradient_background is a function of its four arguments alone: there is one
  outcome, an exception or a canvas, such that on every object store the call raises
  that exception, or returns the address of a new object holding that canvas and leaves
  every object that existed as it was. The same holds for the two card functions, given
  the fonts and their measures.
\<close>

theorem canvases_are_pure:
  "(\<exists>res. \<forall>h. create_gradient_background W H color1 color2 h =
      map_sum id (\<lambda>im. (length h, h @ [im])) res) \<and>
   (\<exists>res. \<forall>h. create_og_image E h = map_sum id (\<lambda>im. (length h, h @ [im])) res) \<and>
   (\<exists>res. \<forall>h. create_twitter_image E h = map_sum id (\<lambda>im. (length h, h @ [im])) res)"
proof (intro conjI)
  show "\<exists>res. \<forall>h. create_gradient_background W H color1 color2 h =
      map_sum id (\<lambda>im. (length h, h @ [im])) res"
    by (rule create_gradient_background_frame)
  have "\<forall>h. create_og_image E h = map_sum id (\<lambda>im. (length h, h @ [im])) (Inr (og_image E))"
    by (simp add: create_og_image_eq)
  then show "\<exists>res. \<forall>h. create_og_image E h = map_sum id (\<lambda>im. (length h, h @ [im])) res"
    by (rule exI)
  have "\<forall>h. create_twitter_image E h =
      map_sum id (\<lambda>im. (length h, h @ [im])) (Inr (twitter_image E))"
    by (simp add: create_twitter_image_eq)
  then show "\<exists>res. \<forall>h. create_twitter_image E h =
      map_sum id (\<lambda>im. (length h, h @ [im])) res"
    by (rule exI)
qed

section \<open>main and the module body\<close>

lemma og_path_eq: "os_path_join output_dir ''og-image.jpg'' = og_path"
  by (simp add: os_path_join_def output_dir_def og_path_def)

lemma twitter_path_eq: "os_path_join output_dir ''twitter-image.jpg'' = twitter_path"
  by (simp add: os_path_join_def output_dir_def twitter_path_def)

lemma in_world_og:
  "in_world (create_og_image E) w =
     Inr (length (objects w), w\<lparr>objects := objects w @ [og_image E]\<rparr>)"
  by (simp add: in_world_def create_og_image_eq)

lemma in_world_twitter:
  "in_world (create_twitter_image E) w =
     Inr (length (objects w), w\<lparr>objects := objects w @ [twitter_image E]\<rparr>)"
  by (simp add: in_world_def create_twitter_image_eq)

lemma main_og_eq:
  "main_og E w =
     (if save_ok E og_path then
        Inr (w\<lparr>stdout := stdout w @ [''Created: '' @ og_path],
               files := files w @ [(og_path, og_image E)],
               objects := objects w @ [og_image E]\<rparr>)
      else Inl (OSError, w\<lparr>objects := objects w @ [og_image E]\<rparr>))"
  by (simp add: main_og_def in_world_og ebind_def og_path_eq save_def print_def Let_def)

lemma main_twitter_eq:
  "main_twitter E w =
     (if save_ok E twitter_path then
        Inr (w\<lparr>stdout := stdout w @ [''Created: '' @ twitter_path],
               files := files w @ [(twitter_path, twitter_image E)],
               objects := objects w @ [twitter_image E]\<rparr>)
      else Inl (OSError, w\<lparr>objects := objects w @ [twitter_image E]\<rparr>))"
  by (simp add: main_twitter_def in_world_twitter ebind_def twitter_path_eq save_def print_def
      Let_def)

lemma foldl_print: "foldl (\<lambda>w s. print s w) w ls = w\<lparr>stdout := stdout w @ ls\<rparr>"
  by (induction ls arbitrary: w) (simp_all add: print_def)

lemma main_eq:
  "main E w =
     (if \<not> save_ok E og_path then
        Inl (OSError, w\<lparr>stdout := stdout w @ [progress_line],
                        objects := objects w @ [og_image E]\<rparr>)
      else if \<not> save_ok E twitter_path then
        Inl (OSError, w\<lparr>stdout := stdout w @ [progress_line, ''Created: '' @ og_path],
                        files := files w @ [(og_path, og_image E)],
                        objects := objects w @ [og_image E, twitter_image E]\<rparr>)
      else
        Inr (w\<lparr>stdout := stdout w @
                 [progress_line, ''Created: '' @ og_path, ''Created: '' @ twitter_path] @
                 usage_hint,
               files := files w @ [(og_path, og_image E), (twitter_path, twitter_image E)],
               objects := objects w @ [og_image E, twitter_image E]\<rparr>))"
  unfolding main_def foldl_print
  by (simp add: main_og_eq main_twitter_eq ebind_def print_def progress_line_def)

lemma script_eq:
  "script E =
     (if \<not> pil_importable E then
        \<lparr>out_stdout = remediation, out_files = [], out_objects = [],
         exit_status = 1, uncaught = None\<rparr>
      else if \<not> save_ok E og_path then
        \<lparr>out_stdout = [progress_line], out_files = [], out_objects = [og_image E],
         exit_status = 1, uncaught = Some OSError\<rparr>
      else if \<not> save_ok E twitter_path then
        \<lparr>out_stdout = [progress_line, ''Created: '' @ og_path],
         out_files = [(og_path, og_image E)],
         out_objects = [og_image E, twitter_image E],
         exit_status = 1, uncaught = Some OSError\<rparr>
      else
        \<lparr>out_stdout =
           [progress_line, ''Created: '' @ og_path, ''Created: '' @ twitter_path] @ usage_hint,
         out_files = [(og_path, og_image E), (twitter_path, twitter_image E)],
         out_objects = [og_image E, twitter_image E],
         exit_status = 0, uncaught = None\<rparr>)"
  by (simp add: script_def main_eq initial_world_def)

lemma og_image_size [simp]: "im_size (og_image E) = (1200, 630)"
  by (simp add: og_image_def gradient_image_def WIDTH_def HEIGHT_def split: prod.splits)

lemma twitter_image_size [simp]: "im_size (twitter_image E) = (1200, 630)"
  by (simp add: twitter_image_def gradient_image_def WIDTH_def HEIGHT_def split: prod.splits)




text \<open>
  C6 as stated fails in its second half: with the library present but the output
  directory not writable, the first save raises, nothing catches the exception, and the
  run ends with status 1 after the first line, without the usage hint.
\<close>

theorem write_failure_counterexample:
  "pil_importable readonly_env \<and>
   script readonly_env =
     \<lparr>out_stdout = [''Generating OG and Twitter Card images...''], out_files = [],
      out_objects = [og_image readonly_env], exit_status = 1, uncaught = Some OSError\<rparr>"
  by (simp add: script_eq readonly_env_def progress_line_def)

text \<open>
  C6, amended. If the imaging library cannot be imported the script prints the
  remediation instructions and exits with status 1, having created no image and written
  no file. If it can be imported and both files can be written, the script runs to
  completion with status 0, printing the progress lines and the usage hint. If it can be
  imported and a write fails, the exception is uncaught, the status is 1 and the usage
  hint is not printed.
\<close>

theorem script_exit_behaviour:
  "(\<not> pil_importable E \<longrightarrow>
      script E =
        \<lparr>out_stdout = remediation, out_files = [], out_objects = [], exit_status = 1,
         uncaught = None\<rparr>) \<and>
   (pil_importable E \<and> save_ok E og_path \<and> save_ok E twitter_path \<longrightarrow>
      exit_status (script E) = 0 \<and> uncaught (script E) = None \<and>
      out_stdout (script E) =
        [progress_line, ''Created: '' @ og_path, ''Created: '' @ twitter_path] @ usage_hint) \<and>
   (pil_importable E \<and> \<not> (save_ok E og_path \<and> save_ok E twitter_path) \<longrightarrow>
      exit_status (script E) = 1 \<and> uncaught (script E) = Some OSError \<and>
      set usage_hint \<inter> set (out_stdout (script E)) = {})"
  by (auto simp add: script_eq usage_hint_def progress_line_def)

theorem script_exit_behaviour_witness:
  "(\<not> pil_importable bare_env \<and>
      script bare_env =
        \<lparr>out_stdout = remediation, out_files = [], out_objects = [], exit_status = 1,
         uncaught = None\<rparr>) \<and>
   (pil_importable desktop_env \<and> save_ok desktop_env og_path \<and> save_ok desktop_env twitter_path \<and>
      exit_status (script desktop_env) = 0 \<and> uncaught (script desktop_env) = None \<and>
      out_stdout (script desktop_env) =
        [progress_line, ''Created: '' @ og_path, ''Created: '' @ twitter_path] @ usage_hint) \<and>
   (pil_importable readonly_env \<and>
      \<not> (save_ok readonly_env og_path \<and> save_ok readonly_env twitter_path) \<and>
      exit_status (script readonly_env) = 1 \<and> uncaught (script readonly_env) = Some OSError \<and>
      set usage_hint \<inter> set (out_stdout (script readonly_env)) = {})"
proof -
  have a: "\<not> pil_importable bare_env" by (simp add: bare_env_def)
  have b: "pil_importable desktop_env \<and> save_ok desktop_env og_path \<and> save_ok desktop_env twitter_path"
    by (simp add: desktop_env_def)
  have c: "pil_importable readonly_env \<and>
      \<not> (save_ok readonly_env og_path \<and> save_ok readonly_env twitter_path)"
    by (simp add: readonly_env_def)
  show ?thesis
    using a b c script_exit_behaviour [of bare_env] script_exit_behaviour [of desktop_env]
      script_exit_behaviour [of readonly_env]
    by blast
qed




end
